theory Spec2Isabelle
  imports Main "HOL-Library.AList" "HOL-Library.Word"
begin

section \<open>Signalling relay: data model\<close>

text \<open>
  The program is the Socket.IO signalling server with the eight-event allow-list
  (\<^verbatim>\<open>start-share\<close>, \<^verbatim>\<open>join-view\<close>, \<^verbatim>\<open>offer\<close>, \<^verbatim>\<open>answer\<close>, \<^verbatim>\<open>ice\<close>,
  \<^verbatim>\<open>ice-candidate\<close>, \<^verbatim>\<open>stop-share\<close>, \<^verbatim>\<open>get-available\<close>), the file that listens
  on port 5001. The repository also holds an earlier \<^verbatim>\<open>server.js\<close> with five events,
  no room check in the relays and no \<^verbatim>\<open>stop-share\<close>; it is not what is modelled here.

  JavaScript values that the handlers only test for truthiness and pass on
  (\<^verbatim>\<open>offer\<close>, \<^verbatim>\<open>answer\<close>, \<^verbatim>\<open>candidate\<close>, and the arguments of outbound events).
\<close>

datatype jsval =
    JUndefined
  | JNull
  | JBool bool
  | JNum int
  | JStr string
  | JObj "(string \<times> jsval) list"

fun truthy :: "jsval \<Rightarrow> bool" where
  "truthy JUndefined = False"
| "truthy JNull = False"
| "truthy (JBool b) = b"
| "truthy (JNum n) = (n \<noteq> 0)"
| "truthy (JStr s) = (s \<noteq> [])"
| "truthy (JObj kvs) = True"

text \<open>
  The destructured view of an inbound payload, \<^verbatim>\<open>const { roomId, targetId, ... } = data || {}\<close>.
  Room and connection identifiers are strings in the client protocol, so \<open>roomId\<close> and
  \<open>targetId\<close> are optional strings: \<open>None\<close> is an absent, undefined or null property,
  \<open>Some []\<close> the empty string, which is falsy as well. Identifiers of another JavaScript
  type are outside this model. A payload that is \<^verbatim>\<open>null\<close> or \<^verbatim>\<open>undefined\<close> is \<open>None\<close>
  at the type \<open>payload option\<close>.
\<close>

record payload =
  roomId :: "string option"
  targetId :: "string option"
  offer :: jsval
  answer :: jsval
  candidate :: jsval

definition truthy_id :: "string option \<Rightarrow> bool" where
  "truthy_id x = (case x of None \<Rightarrow> False | Some s \<Rightarrow> s \<noteq> [])"

definition no_fields :: payload where
  "no_fields = \<lparr>roomId = None, targetId = None, offer = JUndefined,
     answer = JUndefined, candidate = JUndefined\<rparr>"

definition or_empty :: "payload option \<Rightarrow> payload" where
  \<comment> \<open>\<^verbatim>\<open>data || {}\<close>\<close>
  "or_empty data = (case data of None \<Rightarrow> no_fields | Some d \<Rightarrow> d)"

subsection \<open>Event validation\<close>

text \<open>
  A JavaScript string is the list of its UTF-16 code units, which is what \<^verbatim>\<open>s.length\<close>
  counts. \<^verbatim>\<open>JSON.stringify\<close> is a built-in of the runtime, taken as a parameter: it
  throws, returns a string, or returns something that is not a string.
\<close>

datatype stringified = Throws | NotAString | Text "16 word list"

datatype validation = Valid | Invalid string

definition allowedEvents :: "string list" where
  "allowedEvents = [''start-share'', ''join-view'', ''offer'', ''answer'', ''ice'',
     ''ice-candidate'', ''stop-share'', ''get-available'']"

definition messageSize :: "(payload \<Rightarrow> stringified) \<Rightarrow> payload option \<Rightarrow> nat option" where
  \<comment> \<open>the \<^verbatim>\<open>try\<close> block of \<^verbatim>\<open>validateEvent\<close>; \<open>None\<close> is the \<^verbatim>\<open>catch\<close> branch\<close>
  "messageSize stringify data =
     (case data of
        None \<Rightarrow> Some 0
      | Some d \<Rightarrow>
          (case stringify d of
             Throws \<Rightarrow> None
           | NotAString \<Rightarrow> Some 0
           | Text s \<Rightarrow> Some (length s)))"

definition validateEvent ::
  "(payload \<Rightarrow> stringified) \<Rightarrow> string \<Rightarrow> payload option \<Rightarrow> validation" where
  "validateEvent stringify event data =
     (if event \<notin> set allowedEvents then Invalid ''Invalid event type''
      else case messageSize stringify data of
             None \<Rightarrow> Invalid ''Malformed payload''
           | Some n \<Rightarrow> if n > 65536 then Invalid ''Message too large'' else Valid)"





subsection \<open>Connections, rooms and the transport\<close>

text \<open>
  A socket object carries the two ad-hoc properties the handlers set (\<^verbatim>\<open>roomId\<close>,
  \<^verbatim>\<open>isHost\<close>, both \<^verbatim>\<open>undefined\<close> at first) and what Socket.IO keeps for it: whether
  it is connected and the set of broadcast rooms it has joined. Sockets are referred to by
  their id; a socket object outlives its connection, because room objects keep references
  to it.
\<close>

record sock =
  sock_roomId :: "string option"
  isHost :: "bool option"
  connected :: bool
  joined :: "string set"

text \<open>A room object \<^verbatim>\<open>{ host: socket, viewers: [] }\<close>.\<close>

record room =
  host :: string
  viewers :: "string list"

text \<open>
  \<open>rooms\<close> holds the own properties of the table \<^verbatim>\<open>const rooms = {}\<close>, in insertion
  order. Room objects live in a store (\<open>objs\<close>) and the table holds references, since
  the disconnect handler keeps a reference to a room object while nested handlers change
  the table and the object.

  The table is a plain object, so it has a prototype chain. \<open>proto\<close> is the room object
  that an assignment \<^verbatim>\<open>rooms['__proto__'] = ...\<close> has installed as the table's prototype
  (\<open>None\<close>: the prototype is still \<^verbatim>\<open>Object.prototype\<close>).
\<close>

record state =
  sockets :: "(string \<times> sock) list"
  rooms :: "(string \<times> nat) list"
  proto :: "nat option"
  objs :: "(nat \<times> room) list"
  fresh :: nat

text \<open>An outbound event, with the set of connections it is delivered to.\<close>

record delivery =
  rcpts :: "string set"
  ev :: string
  arg :: jsval

text \<open>
  What a handler leaves behind: it returns (\<open>Done\<close>), or a \<^verbatim>\<open>TypeError\<close> escapes from
  it (\<open>Threw\<close>), in both cases with the state and the events sent up to that point.
\<close>

datatype outcome = Done state "delivery list" | Threw state "delivery list"

fun final :: "outcome \<Rightarrow> state" where
  "final (Done st outs) = st"
| "final (Threw st outs) = st"

fun sent :: "outcome \<Rightarrow> delivery list" where
  "sent (Done st outs) = outs"
| "sent (Threw st outs) = outs"

fun threw :: "outcome \<Rightarrow> bool" where
  "threw (Done st outs) = False"
| "threw (Threw st outs) = True"

fun returned :: "state \<times> delivery list \<Rightarrow> outcome" where
  "returned (st, outs) = Done st outs"

fun prepend :: "delivery list \<Rightarrow> outcome \<Rightarrow> outcome" where
  "prepend pre (Done st outs) = Done st (pre @ outs)"
| "prepend pre (Threw st outs) = Threw st (pre @ outs)"

definition init :: state where
  "init = \<lparr>sockets = [], rooms = [], proto = None, objs = [], fresh = 0\<rparr>"

definition sock_of :: "state \<Rightarrow> string \<Rightarrow> sock option" where
  "sock_of st sid = map_of (sockets st) sid"

text \<open>
  Reading \<^verbatim>\<open>rooms[key]\<close>. The names below are the properties of \<^verbatim>\<open>Object.prototype\<close>
  other than \<^verbatim>\<open>__proto__\<close>; the table inherits them, and while a room object is
  installed as prototype it inherits that object's \<^verbatim>\<open>host\<close> and \<^verbatim>\<open>viewers\<close> too.
  \<^verbatim>\<open>__proto__\<close> is an accessor: reading it yields the prototype. A read gives
  nothing (\<open>Absent\<close>), a room object, or an inherited value (\<open>Inherited\<close>): a function,
  \<^verbatim>\<open>Object.prototype\<close>, a socket or an array, all truthy and all without a
  \<^verbatim>\<open>viewers\<close> property of their own.
\<close>

datatype slot = Absent | Inherited | RoomObj nat room

definition inherited_names :: "string list" where
  "inherited_names = [''constructor'', ''__defineGetter__'', ''__defineSetter__'',
     ''hasOwnProperty'', ''__lookupGetter__'', ''__lookupSetter__'', ''isPrototypeOf'',
     ''propertyIsEnumerable'', ''toString'', ''valueOf'', ''toLocaleString'']"

definition deref :: "state \<Rightarrow> nat \<Rightarrow> slot" where
  "deref st r = (case map_of (objs st) r of None \<Rightarrow> Absent | Some rm \<Rightarrow> RoomObj r rm)"

definition lookup :: "state \<Rightarrow> string \<Rightarrow> slot" where
  "lookup st key =
     (if key = ''__proto__'' then
        (case proto st of None \<Rightarrow> Inherited | Some r \<Rightarrow> deref st r)
      else
        (case map_of (rooms st) key of
           Some r \<Rightarrow> deref st r
         | None \<Rightarrow>
             if proto st \<noteq> None \<and> key \<in> {''host'', ''viewers''} then Inherited
             else if key \<in> set inherited_names then Inherited
             else Absent))"

definition table_set :: "state \<Rightarrow> string \<Rightarrow> nat \<Rightarrow> state" where
  \<comment> \<open>\<^verbatim>\<open>rooms[key] = room\<close>, for a room object\<close>
  "table_set st key r =
     (if key = ''__proto__'' then st\<lparr>proto := Some r\<rparr>
      else st\<lparr>rooms := AList.update key r (rooms st)\<rparr>)"

definition table_delete :: "state \<Rightarrow> string \<Rightarrow> state" where
  \<comment> \<open>\<^verbatim>\<open>delete rooms[key]\<close>: removes an own property, and nothing else\<close>
  "table_delete st key =
     (if key = ''__proto__'' then st
      else st\<lparr>rooms := AList.delete key (rooms st)\<rparr>)"

definition room_at :: "state \<Rightarrow> string \<Rightarrow> room option" where
  \<comment> \<open>the room object that \<^verbatim>\<open>rooms[roomId]\<close> yields, if it yields one\<close>
  "room_at st rid = (case lookup st rid of RoomObj r rm \<Rightarrow> Some rm | _ \<Rightarrow> None)"

definition own_name :: "state \<Rightarrow> string \<Rightarrow> bool" where
  \<comment> \<open>a key that the table does not inherit\<close>
  "own_name st key \<longleftrightarrow>
     key \<noteq> ''__proto__'' \<and> key \<notin> set inherited_names
     \<and> (proto st = None \<or> key \<notin> {''host'', ''viewers''})"

definition get_socket :: "state \<Rightarrow> string \<Rightarrow> sock option" where
  \<comment> \<open>\<^verbatim>\<open>io.sockets.sockets.get(id)\<close>: the connected sockets of the namespace\<close>
  "get_socket st sid =
     (case sock_of st sid of
        None \<Rightarrow> None
      | Some k \<Rightarrow> if connected k then Some k else None)"

definition in_room :: "state \<Rightarrow> string \<Rightarrow> string set" where
  \<comment> \<open>the connected sockets that have joined broadcast room \<open>r\<close>\<close>
  "in_room st r =
     set (map fst (filter (\<lambda>(s, k). connected k \<and> r \<in> joined k) (sockets st)))"

definition socket_emit :: "state \<Rightarrow> string \<Rightarrow> string \<Rightarrow> jsval \<Rightarrow> delivery list" where
  \<comment> \<open>\<^verbatim>\<open>socket.emit(ev, arg)\<close>; a packet for a closed socket is discarded\<close>
  "socket_emit st sid e a =
     (case get_socket st sid of
        None \<Rightarrow> []
      | Some k \<Rightarrow> [\<lparr>rcpts = {sid}, ev = e, arg = a\<rparr>])"

definition io_to_emit :: "state \<Rightarrow> string \<Rightarrow> string \<Rightarrow> jsval \<Rightarrow> delivery list" where
  \<comment> \<open>\<^verbatim>\<open>io.to(r).emit(ev, arg)\<close>\<close>
  "io_to_emit st r e a = [\<lparr>rcpts = in_room st r, ev = e, arg = a\<rparr>]"

definition socket_to_emit ::
  "state \<Rightarrow> string \<Rightarrow> string \<Rightarrow> string \<Rightarrow> jsval \<Rightarrow> delivery list" where
  \<comment> \<open>\<^verbatim>\<open>socket.to(r).emit(ev, arg)\<close>: the room without the sender\<close>
  "socket_to_emit st sid r e a = [\<lparr>rcpts = in_room st r - {sid}, ev = e, arg = a\<rparr>]"

definition upd_sock :: "state \<Rightarrow> string \<Rightarrow> (sock \<Rightarrow> sock) \<Rightarrow> state" where
  "upd_sock st sid f =
     (case sock_of st sid of
        None \<Rightarrow> st
      | Some k \<Rightarrow> st\<lparr>sockets := AList.update sid (f k) (sockets st)\<rparr>)"

definition socket_join :: "state \<Rightarrow> string \<Rightarrow> string \<Rightarrow> state" where
  "socket_join st sid r = upd_sock st sid (\<lambda>k. k\<lparr>joined := insert r (joined k)\<rparr>)"

definition socket_leave :: "state \<Rightarrow> string \<Rightarrow> string \<Rightarrow> state" where
  "socket_leave st sid r = upd_sock st sid (\<lambda>k. k\<lparr>joined := joined k - {r}\<rparr>)"

definition on_connect :: "state \<Rightarrow> string \<Rightarrow> state" where
  \<comment> \<open>a new connection: a fresh, non-empty id; the socket joins the room named by its id\<close>
  "on_connect st sid =
     (if sid = [] \<or> sock_of st sid \<noteq> None then st
      else st\<lparr>sockets := sockets st @
             [(sid, \<lparr>sock_roomId = None, isHost = None, connected = True, joined = {sid}\<rparr>)]\<rparr>)"

subsection \<open>Handlers\<close>

definition on_start_share ::
  "(payload \<Rightarrow> stringified) \<Rightarrow> state \<Rightarrow> string \<Rightarrow> payload option \<Rightarrow> state \<times> delivery list" where
  "on_start_share stringify st sid data =
     (case validateEvent stringify ''start-share'' data of
        Invalid e \<Rightarrow> (st, socket_emit st sid ''error'' (JStr e))
      | Valid \<Rightarrow>
          let providedRoomId = roomId (or_empty data);
              rid = (case providedRoomId of
                       None \<Rightarrow> sid
                     | Some s \<Rightarrow> if s \<noteq> [] then s else sid);
              r = fresh st;
              st1 = table_set
                      (st\<lparr>objs := AList.update r \<lparr>host = sid, viewers = []\<rparr> (objs st),
                          fresh := Suc r\<rparr>) rid r;
              st2 = socket_join st1 sid rid;
              st3 = upd_sock st2 sid (\<lambda>k. k\<lparr>sock_roomId := Some rid, isHost := Some True\<rparr>)
          in (st3, io_to_emit st3 rid ''room-created'' (JObj [(''roomId'', JStr rid)])))"

definition leave_all :: "string list \<Rightarrow> string \<Rightarrow> state \<Rightarrow> state" where
  \<comment> \<open>\<^verbatim>\<open>viewers.forEach(viewer => viewer.leave(roomId))\<close>\<close>
  "leave_all vs rid st = fold (\<lambda>v s. socket_leave s v rid) vs st"

definition on_stop_share :: "state \<Rightarrow> string \<Rightarrow> outcome" where
  \<comment> \<open>on an inherited value \<^verbatim>\<open>rooms[roomId].viewers\<close> is undefined and \<^verbatim>\<open>.forEach\<close> throws,
      after \<^verbatim>\<open>host-stopped\<close> has been sent\<close>
  "on_stop_share st sid =
     (case sock_of st sid of
        None \<Rightarrow> Done st []
      | Some k \<Rightarrow>
          (case sock_roomId k of
             None \<Rightarrow> Done st []
           | Some rid \<Rightarrow>
               if rid \<noteq> [] \<and> lookup st rid \<noteq> Absent \<and> isHost k = Some True then
                 (let outs = io_to_emit st rid ''host-stopped'' JUndefined
                  in case lookup st rid of
                       RoomObj r rm \<Rightarrow> Done (table_delete (leave_all (viewers rm) rid st) rid) outs
                     | _ \<Rightarrow> Threw st outs)
               else Done st []))"

definition on_get_available :: "state \<Rightarrow> string \<Rightarrow> state \<times> delivery list" where
  \<comment> \<open>\<^verbatim>\<open>Object.keys(rooms).length\<close> counts the own properties\<close>
  "on_get_available st sid =
     (let count = length (rooms st)
      in (st, socket_emit st sid ''available-count'' (JObj [(''count'', JNum (int count))])))"

definition on_join_view ::
  "(payload \<Rightarrow> stringified) \<Rightarrow> state \<Rightarrow> string \<Rightarrow> payload option \<Rightarrow> outcome" where
  \<comment> \<open>on an inherited value \<^verbatim>\<open>room.viewers\<close> is undefined and \<^verbatim>\<open>.push\<close> throws\<close>
  "on_join_view stringify st sid data =
     (case validateEvent stringify ''join-view'' data of
        Invalid e \<Rightarrow> Done st (socket_emit st sid ''error'' (JStr e))
      | Valid \<Rightarrow>
          (case roomId (or_empty data) of
             None \<Rightarrow> Done st (socket_emit st sid ''error'' (JStr ''Missing roomId''))
           | Some rid \<Rightarrow>
               if rid = [] then Done st (socket_emit st sid ''error'' (JStr ''Missing roomId''))
               else
                 (case lookup st rid of
                    Absent \<Rightarrow> Done st (socket_emit st sid ''error'' (JStr ''Room not found''))
                  | Inherited \<Rightarrow> Threw st []
                  | RoomObj r rm \<Rightarrow>
                      let st1 = st\<lparr>objs := AList.update r (rm\<lparr>viewers := viewers rm @ [sid]\<rparr>) (objs st)\<rparr>;
                          st2 = socket_join st1 sid rid;
                          st3 = upd_sock st2 sid
                                  (\<lambda>k. k\<lparr>sock_roomId := Some rid, isHost := Some False\<rparr>)
                      in Done st3
                           (io_to_emit st3 rid ''viewer-joined'' (JObj [(''viewerId'', JStr sid)])
                            @ socket_emit st3 sid ''view-joined'' (JObj [(''roomId'', JStr rid)])))))"

text \<open>
  The four relay handlers (\<^verbatim>\<open>offer\<close>, \<^verbatim>\<open>answer\<close>, \<^verbatim>\<open>ice\<close>, \<^verbatim>\<open>ice-candidate\<close>) are
  the same text up to the inbound event name, the payload property, the outbound event
  name and the error message.
\<close>

record relay_kind =
  inbound :: string
  field :: "payload \<Rightarrow> jsval"
  key :: string
  outbound :: string
  complaint :: string

definition offer_kind :: relay_kind where
  "offer_kind = \<lparr>inbound = ''offer'', field = offer, key = ''offer'',
     outbound = ''offer'', complaint = ''Invalid offer payload''\<rparr>"

definition answer_kind :: relay_kind where
  "answer_kind = \<lparr>inbound = ''answer'', field = answer, key = ''answer'',
     outbound = ''answer'', complaint = ''Invalid answer payload''\<rparr>"

definition ice_kind :: relay_kind where
  "ice_kind = \<lparr>inbound = ''ice'', field = candidate, key = ''candidate'',
     outbound = ''ice'', complaint = ''Invalid ICE payload''\<rparr>"

definition ice_candidate_kind :: relay_kind where
  "ice_candidate_kind = \<lparr>inbound = ''ice-candidate'', field = candidate, key = ''candidate'',
     outbound = ''ice'', complaint = ''Invalid ICE payload''\<rparr>"

definition relayed :: "relay_kind \<Rightarrow> jsval \<Rightarrow> string \<Rightarrow> jsval" where
  \<comment> \<open>\<^verbatim>\<open>{ offer, fromId: socket.id }\<close>\<close>
  "relayed rk v sid = JObj [(key rk, v), (''fromId'', JStr sid)]"

definition on_relay ::
  "relay_kind \<Rightarrow> (payload \<Rightarrow> stringified) \<Rightarrow> state \<Rightarrow> string \<Rightarrow> payload option
     \<Rightarrow> state \<times> delivery list" where
  "on_relay rk stringify st sid data =
     (case validateEvent stringify (inbound rk) data of
        Invalid e \<Rightarrow> (st, socket_emit st sid ''error'' (JStr e))
      | Valid \<Rightarrow>
          let tid = targetId (or_empty data);
              v = field rk (or_empty data)
          in if \<not> truthy_id tid \<or> \<not> truthy v then
               (let rid = (case sock_of st sid of None \<Rightarrow> None | Some k \<Rightarrow> sock_roomId k)
                in if truthy_id rid \<and> truthy v then
                     (case rid of
                        None \<Rightarrow> (st, [])
                      | Some r \<Rightarrow> (st, socket_to_emit st sid r (outbound rk) (relayed rk v sid)))
                   else (st, socket_emit st sid ''error'' (JStr (complaint rk))))
             else
               (case tid of
                  None \<Rightarrow> (st, [])
                | Some t \<Rightarrow>
                    (case get_socket st t of
                       None \<Rightarrow> (st, [])
                     | Some tk \<Rightarrow>
                         if sock_roomId tk =
                              (case sock_of st sid of None \<Rightarrow> None | Some k \<Rightarrow> sock_roomId k)
                         then (st, socket_emit st t (outbound rk) (relayed rk v sid))
                         else (st, []))))"

subsection \<open>Disconnect\<close>

text \<open>
  Socket.IO closes a socket in one synchronous step, for a connection lost by the client
  as for \<^verbatim>\<open>socket.disconnect()\<close> called by the server: nothing happens if the socket
  is already closed; otherwise the socket leaves all its broadcast rooms, is removed from
  the namespace, is marked closed, and its \<^verbatim>\<open>disconnect\<close> listeners run before the call
  returns. So \<^verbatim>\<open>viewer.disconnect()\<close> inside the host branch runs the viewer's own
  disconnect handler inside the \<^verbatim>\<open>forEach\<close>, which can change the array being walked.

  \<^verbatim>\<open>Array.prototype.forEach\<close> reads the length once and then visits the indices
  \<open>0 .. len - 1\<close> that are still present in the array at the time of the visit.

  When \<^verbatim>\<open>rooms[socket.roomId]\<close> is an inherited value, \<^verbatim>\<open>room.viewers\<close> is undefined
  and both branches throw at once. An error thrown by a nested handler leaves the loop
  and the handler around it.

  The nesting of closes is bounded by fuel: \<open>None\<close> is running out of it.
\<close>

definition detach :: "state \<Rightarrow> string \<Rightarrow> state" where
  "detach st sid = upd_sock st sid (\<lambda>k. k\<lparr>connected := False, joined := {}\<rparr>)"

definition viewer_left :: "state \<Rightarrow> string \<Rightarrow> nat \<Rightarrow> room \<Rightarrow> state \<times> delivery list" where
  \<comment> \<open>the viewer branch: \<^verbatim>\<open>indexOf\<close>, \<^verbatim>\<open>splice(viewerIndex, 1)\<close>, notify the host\<close>
  "viewer_left st sid r rm =
     (if sid \<in> set (viewers rm) then
        let st1 = st\<lparr>objs := AList.update r (rm\<lparr>viewers := remove1 sid (viewers rm)\<rparr>) (objs st)\<rparr>
        in (st1, socket_emit st1 (host rm) ''viewer-left'' (JObj [(''viewerId'', JStr sid)]))
      else (st, []))"

fun room_deleted :: "string \<Rightarrow> outcome \<Rightarrow> outcome" where
  \<comment> \<open>\<^verbatim>\<open>delete rooms[socket.roomId]\<close> after the loop, unless the loop threw\<close>
  "room_deleted rid (Done st outs) = Done (table_delete st rid) outs"
| "room_deleted rid (Threw st outs) = Threw st outs"

fun socket_close :: "nat \<Rightarrow> state \<Rightarrow> string \<Rightarrow> outcome option"
  and on_disconnect :: "nat \<Rightarrow> state \<Rightarrow> string \<Rightarrow> outcome option"
  and forEach_viewer :: "nat \<Rightarrow> nat \<Rightarrow> nat \<Rightarrow> nat \<Rightarrow> state \<Rightarrow> outcome option"
where
  "socket_close 0 st sid = None"
| "socket_close (Suc fuel) st sid =
     (case get_socket st sid of
        None \<Rightarrow> Some (Done st [])
      | Some k \<Rightarrow> on_disconnect fuel (detach st sid) sid)"
| "on_disconnect fuel st sid =
     (case sock_of st sid of
        None \<Rightarrow> Some (Done st [])
      | Some k \<Rightarrow>
          (case sock_roomId k of
             None \<Rightarrow> Some (Done st [])
           | Some rid \<Rightarrow>
               if rid = [] then Some (Done st [])
               else
                 (case lookup st rid of
                    Absent \<Rightarrow> Some (Done st [])
                  | Inherited \<Rightarrow> Some (Threw st [])
                  | RoomObj r rm \<Rightarrow>
                      if isHost k = Some True then
                        (case forEach_viewer fuel r 0 (length (viewers rm)) st of
                           None \<Rightarrow> None
                         | Some out \<Rightarrow> Some (room_deleted rid out))
                      else Some (returned (viewer_left st sid r rm)))))"
| "forEach_viewer fuel r i 0 st = Some (Done st [])"
| "forEach_viewer fuel r i (Suc n) st =
     (case map_of (objs st) r of
        None \<Rightarrow> Some (Done st [])
      | Some rm \<Rightarrow>
          if i < length (viewers rm) then
            (let v = viewers rm ! i;
                 outs1 = socket_emit st v ''host-disconnected'' JUndefined
             in case socket_close fuel st v of
                  None \<Rightarrow> None
                | Some (Threw st1 outs2) \<Rightarrow> Some (Threw st1 (outs1 @ outs2))
                | Some (Done st1 outs2) \<Rightarrow>
                    (case forEach_viewer fuel r (Suc i) n st1 of
                       None \<Rightarrow> None
                     | Some out \<Rightarrow> Some (prepend (outs1 @ outs2) out)))
          else forEach_viewer fuel r (Suc i) n st)"

subsection \<open>Events of the transport\<close>

datatype event =
    Connect string
  | Message string string "payload option"
  | Disconnect string

definition on_message ::
  "(payload \<Rightarrow> stringified) \<Rightarrow> state \<Rightarrow> string \<Rightarrow> string \<Rightarrow> payload option \<Rightarrow> outcome" where
  \<comment> \<open>the listeners registered with \<^verbatim>\<open>socket.on\<close>; an event without listener is ignored\<close>
  "on_message stringify st sid name data =
     (case get_socket st sid of
        None \<Rightarrow> Done st []
      | Some k \<Rightarrow>
          if name = ''start-share'' then returned (on_start_share stringify st sid data)
          else if name = ''stop-share'' then on_stop_share st sid
          else if name = ''get-available'' then returned (on_get_available st sid)
          else if name = ''ice-candidate''
            then returned (on_relay ice_candidate_kind stringify st sid data)
          else if name = ''join-view'' then on_join_view stringify st sid data
          else if name = ''offer'' then returned (on_relay offer_kind stringify st sid data)
          else if name = ''answer'' then returned (on_relay answer_kind stringify st sid data)
          else if name = ''ice'' then returned (on_relay ice_kind stringify st sid data)
          else Done st [])"

definition handle ::
  "nat \<Rightarrow> (payload \<Rightarrow> stringified) \<Rightarrow> state \<Rightarrow> event \<Rightarrow> outcome option" where
  "handle fuel stringify st e =
     (case e of
        Connect sid \<Rightarrow> Some (Done (on_connect st sid) [])
      | Message sid name data \<Rightarrow> Some (on_message stringify st sid name data)
      | Disconnect sid \<Rightarrow> socket_close fuel st sid)"

text \<open>
  A run of events. Nothing catches an error that escapes from a handler, so the run ends
  there.
\<close>

fun run ::
  "nat \<Rightarrow> (payload \<Rightarrow> stringified) \<Rightarrow> state \<Rightarrow> event list \<Rightarrow> outcome option" where
  "run fuel stringify st [] = Some (Done st [])"
| "run fuel stringify st (e # es) =
     (case handle fuel stringify st e of
        None \<Rightarrow> None
      | Some (Threw st1 outs1) \<Rightarrow> Some (Threw st1 outs1)
      | Some (Done st1 outs1) \<Rightarrow>
          (case run fuel stringify st1 es of
             None \<Rightarrow> None
           | Some out \<Rightarrow> Some (prepend outs1 out)))"

subsection \<open>Sample inputs\<close>

text \<open>
  A serializer that always yields the two-character text \<^verbatim>\<open>{}\<close>, payloads carrying one
  property, and a state with host \<open>A\<close> of room \<open>R\<close>, viewers \<open>C\<close> and \<open>E\<close> of
  \<open>R\<close>, and an unaffiliated connection \<open>D\<close>.
\<close>

definition tiny :: "payload \<Rightarrow> stringified" where
  "tiny d = Text [0x7B, 0x7D]"

definition with_room :: "string \<Rightarrow> payload option" where
  "with_room r = Some (no_fields\<lparr>roomId := Some r\<rparr>)"

definition offer_to :: "string \<Rightarrow> payload option" where
  "offer_to t = Some (no_fields\<lparr>targetId := Some t, offer := JStr ''X''\<rparr>)"

definition party :: state where
  "party =
     \<lparr>sockets =
        [(''A'', \<lparr>sock_roomId = Some ''R'', isHost = Some True, connected = True,
                 joined = {''R'', ''A''}\<rparr>),
         (''C'', \<lparr>sock_roomId = Some ''R'', isHost = Some False, connected = True,
                 joined = {''R'', ''C''}\<rparr>),
         (''E'', \<lparr>sock_roomId = Some ''R'', isHost = Some False, connected = True,
                 joined = {''R'', ''E''}\<rparr>),
         (''D'', \<lparr>sock_roomId = None, isHost = None, connected = True, joined = {''D''}\<rparr>)],
      rooms = [(''R'', 0)],
      proto = None,
      objs = [(0, \<lparr>host = ''A'', viewers = [''C'', ''E'']\<rparr>)],
      fresh = 1\<rparr>"

definition host_leaves :: "event list" where
  \<comment> \<open>host \<open>A\<close> of room \<open>R\<close> with viewers \<open>C\<close> and \<open>E\<close> loses its connection\<close>
  "host_leaves =
     [Connect ''A'', Connect ''C'', Connect ''E'',
      Message ''A'' ''start-share'' (with_room ''R''),
      Message ''C'' ''join-view'' (with_room ''R''),
      Message ''E'' ''join-view'' (with_room ''R''),
      Disconnect ''A'']"

definition two_rooms :: "event list" where
  \<comment> \<open>\<open>A\<close> shares twice, under two room ids, and loses its connection; \<open>B\<close> asks for the count\<close>
  "two_rooms =
     [Connect ''A'', Connect ''B'',
      Message ''A'' ''start-share'' (with_room ''r1''),
      Message ''A'' ''start-share'' (with_room ''r2''),
      Disconnect ''A'',
      Message ''B'' ''get-available'' None]"

definition joins_twice :: "event list" where
  "joins_twice =
     [Connect ''A'', Connect ''C'',
      Message ''A'' ''start-share'' (with_room ''R''),
      Message ''C'' ''join-view'' (with_room ''R''),
      Message ''C'' ''join-view'' (with_room ''R'')]"

definition two_join :: "event list" where
  \<comment> \<open>\<open>C\<close> and then \<open>E\<close> join the room of \<open>A\<close>, each once\<close>
  "two_join =
     [Connect ''A'', Connect ''C'', Connect ''E'',
      Message ''A'' ''start-share'' (with_room ''R''),
      Message ''C'' ''join-view'' (with_room ''R''),
      Message ''E'' ''join-view'' (with_room ''R'')]"

definition no_such_room :: "event list" where
  \<comment> \<open>\<open>D\<close> asks to join a room named \<^verbatim>\<open>toString\<close> on a server without rooms\<close>
  "no_such_room =
     [Connect ''D'', Message ''D'' ''join-view'' (with_room ''toString'')]"

definition takeover :: "event list" where
  \<comment> \<open>\<open>D\<close> shares under the room id that \<open>A\<close> used, and \<open>C\<close> joins the room of \<open>D\<close>\<close>
  "takeover =
     [Connect ''A'', Connect ''D'', Connect ''C'',
      Message ''A'' ''start-share'' (with_room ''R''),
      Message ''D'' ''start-share'' (with_room ''R''),
      Message ''C'' ''join-view'' (with_room ''R'')]"


subsection \<open>Reachable states\<close>

text \<open>
  The states reachable from the empty server by events that a guard admits and that the
  server survives. The guard \<open>joins_fresh\<close> admits a \<^verbatim>\<open>join-view\<close> only from a
  connection that is not yet among the viewers of the room it names, and every other event.
\<close>

inductive reach :: "(payload \<Rightarrow> stringified) \<Rightarrow> (state \<Rightarrow> event \<Rightarrow> bool) \<Rightarrow> state \<Rightarrow> bool"
  for stringify :: "payload \<Rightarrow> stringified" and guard :: "state \<Rightarrow> event \<Rightarrow> bool"
where
  start: "reach stringify guard init"
| step: "reach stringify guard st \<Longrightarrow> guard st e
           \<Longrightarrow> handle fuel stringify st e = Some (Done st' outs)
           \<Longrightarrow> reach stringify guard st'"

definition joins_fresh :: "state \<Rightarrow> event \<Rightarrow> bool" where
  "joins_fresh st e =
     (case e of
        Message sid name data \<Rightarrow>
          name = ''join-view'' \<longrightarrow>
            (case roomId (or_empty data) of
               None \<Rightarrow> True
             | Some R \<Rightarrow>
                 (case room_at st R of
                    None \<Rightarrow> True
                  | Some rm \<Rightarrow> sid \<notin> set (viewers rm)))
      | _ \<Rightarrow> True)"

fun run_guarded ::
  "(state \<Rightarrow> event \<Rightarrow> bool) \<Rightarrow> nat \<Rightarrow> (payload \<Rightarrow> stringified) \<Rightarrow> state \<Rightarrow> event list
     \<Rightarrow> state option" where
  "run_guarded guard fuel stringify st [] = Some st"
| "run_guarded guard fuel stringify st (e # es) =
     (if guard st e then
        (case handle fuel stringify st e of
           Some (Done st1 outs) \<Rightarrow> run_guarded guard fuel stringify st1 es
         | _ \<Rightarrow> None)
      else None)"

definition distinct_viewers :: "state \<Rightarrow> bool" where
  \<comment> \<open>no room object lists a connection twice\<close>
  "distinct_viewers st = (\<forall>(r, rm) \<in> set (objs st). distinct (viewers rm))"

text \<open>The state after \<open>two_join\<close>.\<close>

definition after_two_join :: state where
  "after_two_join =
     \<lparr>sockets =
        [(''A'', \<lparr>sock_roomId = Some ''R'', isHost = Some True, connected = True,
                 joined = {''R'', ''A''}\<rparr>),
         (''C'', \<lparr>sock_roomId = Some ''R'', isHost = Some False, connected = True,
                 joined = {''R'', ''C''}\<rparr>),
         (''E'', \<lparr>sock_roomId = Some ''R'', isHost = Some False, connected = True,
                 joined = {''R'', ''E''}\<rparr>)],
      rooms = [(''R'', 0)],
      proto = None,
      objs = [(0, \<lparr>host = ''A'', viewers = [''C'', ''E'']\<rparr>)],
      fresh = 1\<rparr>"

subsection \<open>Connected sockets\<close>

text \<open>The number of connected sockets bounds the nesting of closes.\<close>

definition live :: "state \<Rightarrow> nat" where
  "live st = length (filter (\<lambda>(s, k). connected k) (sockets st))"

section \<open>Properties\<close>

subsection \<open>Auxiliary facts\<close>


lemma sock_of_upd_sock:
  "sock_of (upd_sock st sid f) x =
     (if x = sid then map_option f (sock_of st sid) else sock_of st x)"
  by (simp add: upd_sock_def sock_of_def update_conv' split: option.splits)

lemma rooms_upd_sock [simp]: "rooms (upd_sock st sid f) = rooms st"
  by (simp add: upd_sock_def split: option.splits)

lemma proto_upd_sock [simp]: "proto (upd_sock st sid f) = proto st"
  by (simp add: upd_sock_def split: option.splits)

lemma objs_upd_sock [simp]: "objs (upd_sock st sid f) = objs st"
  by (simp add: upd_sock_def split: option.splits)

lemma fresh_upd_sock [simp]: "fresh (upd_sock st sid f) = fresh st"
  by (simp add: upd_sock_def split: option.splits)

lemma lookup_same:
  "rooms st' = rooms st \<Longrightarrow> proto st' = proto st \<Longrightarrow> objs st' = objs st
     \<Longrightarrow> lookup st' rid = lookup st rid"
proof -
  assume a: "rooms st' = rooms st" "proto st' = proto st" "objs st' = objs st"
  then have h: "deref st' = deref st" by (simp add: deref_def fun_eq_iff)
  show ?thesis unfolding lookup_def a h by (rule refl)
qed

lemma lookup_upd_sock [simp]: "lookup (upd_sock st sid f) rid = lookup st rid"
  by (rule lookup_same) simp_all

lemma room_at_upd_sock [simp]: "room_at (upd_sock st sid f) rid = room_at st rid"
  by (simp add: room_at_def)

lemma get_socket_upd_sock:
  "get_socket (upd_sock st sid f) x =
     (if x = sid then (case sock_of st sid of None \<Rightarrow> None
                       | Some k \<Rightarrow> if connected (f k) then Some (f k) else None)
      else get_socket st x)"
  by (simp add: get_socket_def sock_of_upd_sock split: option.splits)

lemma sock_of_objs_update [simp]: "sock_of (st\<lparr>objs := x\<rparr>) = sock_of st"
  by (simp add: sock_of_def fun_eq_iff)

lemma sock_of_rooms_update [simp]: "sock_of (st\<lparr>rooms := x\<rparr>) = sock_of st"
  by (simp add: sock_of_def fun_eq_iff)

lemma sock_of_proto_update [simp]: "sock_of (st\<lparr>proto := x\<rparr>) = sock_of st"
  by (simp add: sock_of_def fun_eq_iff)

lemma sock_of_fresh_update [simp]: "sock_of (st\<lparr>fresh := x\<rparr>) = sock_of st"
  by (simp add: sock_of_def fun_eq_iff)

lemma sock_of_table_set [simp]: "sock_of (table_set st nm r) = sock_of st"
  by (simp add: table_set_def)

lemma sock_of_table_delete [simp]: "sock_of (table_delete st nm) = sock_of st"
  by (simp add: table_delete_def)

lemma get_socket_objs_update [simp]: "get_socket (st\<lparr>objs := x\<rparr>) = get_socket st"
  by (simp add: get_socket_def fun_eq_iff)

lemma get_socket_rooms_update [simp]: "get_socket (st\<lparr>rooms := x\<rparr>) = get_socket st"
  by (simp add: get_socket_def fun_eq_iff)

lemma get_socket_table_delete [simp]: "get_socket (table_delete st nm) = get_socket st"
  by (simp add: get_socket_def fun_eq_iff)

lemma objs_table_set [simp]: "objs (table_set st nm r) = objs st"
  by (simp add: table_set_def)

lemma objs_table_delete [simp]: "objs (table_delete st nm) = objs st"
  by (simp add: table_delete_def)

lemma sockets_table_delete [simp]: "sockets (table_delete st nm) = sockets st"
  by (simp add: table_delete_def)

lemma lookup_table_set_same:
  "map_of (objs st) r = Some rm \<Longrightarrow> lookup (table_set st nm r) nm = RoomObj r rm"
  by (simp add: lookup_def table_set_def deref_def update_conv')

lemma sock_of_leave_all:
  "sock_of (leave_all vs R st) x =
     (if x \<in> set vs then map_option (\<lambda>k. k\<lparr>joined := joined k - {R}\<rparr>) (sock_of st x)
      else sock_of st x)"
proof (induction vs arbitrary: st)
  case Nil
  then show ?case by (simp add: leave_all_def)
next
  case (Cons v vs)
  have "leave_all (v # vs) R st = leave_all vs R (socket_leave st v R)"
    by (simp add: leave_all_def)
  then show ?case
    using Cons.IH [of "socket_leave st v R"]
    by (cases "sock_of st x") (auto simp: socket_leave_def sock_of_upd_sock)
qed

lemma rooms_leave_all [simp]: "rooms (leave_all vs R st) = rooms st"
  by (induction vs arbitrary: st) (simp_all add: leave_all_def socket_leave_def)

lemma proto_leave_all [simp]: "proto (leave_all vs R st) = proto st"
  by (induction vs arbitrary: st) (simp_all add: leave_all_def socket_leave_def)

lemma objs_leave_all [simp]: "objs (leave_all vs R st) = objs st"
  by (induction vs arbitrary: st) (simp_all add: leave_all_def socket_leave_def)

lemma detach_rooms [simp]: "rooms (detach st sid) = rooms st"
  by (simp add: detach_def)

lemma detach_proto [simp]: "proto (detach st sid) = proto st"
  by (simp add: detach_def)

lemma detach_objs [simp]: "objs (detach st sid) = objs st"
  by (simp add: detach_def)

lemma lookup_detach [simp]: "lookup (detach st sid) rid = lookup st rid"
  by (rule lookup_same) simp_all

lemma lookup_leave_all [simp]: "lookup (leave_all vs R st) rid = lookup st rid"
  by (rule lookup_same) simp_all

lemma room_at_detach [simp]: "room_at (detach st sid) rid = room_at st rid"
  by (simp add: detach_def)

lemma room_at_RoomObj: "room_at st rid = Some rm \<longleftrightarrow> (\<exists>r. lookup st rid = RoomObj r rm)"
  by (auto simp: room_at_def split: slot.splits)

lemma lookup_RoomObj_objs: "lookup st rid = RoomObj r rm \<Longrightarrow> map_of (objs st) r = Some rm"
  by (auto simp: lookup_def deref_def split: if_splits option.splits)

lemma socket_emit_mem:
  "d \<in> set (socket_emit st sid e a) \<longleftrightarrow>
     get_socket st sid \<noteq> None \<and> d = \<lparr>rcpts = {sid}, ev = e, arg = a\<rparr>"
  by (cases "get_socket st sid") (auto simp: socket_emit_def)

lemma start_share_error:
  assumes "on_start_share stringify st sid data = (st', outs)" "d \<in> set outs" "ev d = ''error''"
  shows "st' = st"
  using assms
  by (auto simp: on_start_share_def Let_def io_to_emit_def socket_emit_mem
      split: validation.splits)

lemma stop_share_error:
  assumes "d \<in> set (sent (on_stop_share st sid))" "ev d = ''error''"
  shows "on_stop_share st sid = Done st []"
  using assms
  by (auto simp: on_stop_share_def Let_def io_to_emit_def
      split: option.splits if_splits slot.splits)

lemma get_available_same: "on_get_available st sid = (st', outs) \<Longrightarrow> st' = st"
  by (auto simp: on_get_available_def Let_def)

lemma join_view_error:
  assumes "d \<in> set (sent (on_join_view stringify st sid data))" "ev d = ''error''"
  shows "final (on_join_view stringify st sid data) = st
         \<and> \<not> threw (on_join_view stringify st sid data)"
  using assms
  by (auto simp: on_join_view_def Let_def io_to_emit_def socket_emit_mem
      split: validation.splits option.splits if_splits slot.splits)

lemma relay_same: "on_relay rk stringify st sid data = (st', outs) \<Longrightarrow> st' = st"
  by (auto simp: on_relay_def Let_def split: validation.splits option.splits if_splits)

lemma tiny_valid:
  "e \<in> set allowedEvents \<Longrightarrow> validateEvent tiny e data = Valid"
  by (simp add: validateEvent_def messageSize_def tiny_def split: option.splits)

lemmas evals = on_start_share_def on_join_view_def on_stop_share_def on_relay_def
  on_message_def validateEvent_def messageSize_def allowedEvents_def tiny_def with_room_def
  or_empty_def no_fields_def party_def sock_of_def room_at_def get_socket_def in_room_def
  socket_emit_def io_to_emit_def socket_to_emit_def upd_sock_def socket_join_def
  socket_leave_def leave_all_def detach_def viewer_left_def truthy_id_def Let_def
  lookup_def deref_def table_set_def table_delete_def inherited_names_def

lemma own_name_lookup:
  "own_name st R \<Longrightarrow>
     lookup st R = (case map_of (rooms st) R of None \<Rightarrow> Absent | Some r \<Rightarrow> deref st r)"
  by (auto simp: own_name_def lookup_def split: option.splits)

lemma own_name_not_inherited: "own_name st R \<Longrightarrow> lookup st R \<noteq> Inherited"
  by (auto simp: own_name_lookup deref_def split: option.splits)

lemma lookup_objs_update:
  "lookup st R = RoomObj r rm
     \<Longrightarrow> lookup (st\<lparr>objs := AList.update r rm' (objs st)\<rparr>) R = RoomObj r rm'"
  by (auto simp: lookup_def deref_def update_conv' split: if_splits option.splits)

lemma lookup_deleted:
  "own_name st R \<Longrightarrow> lookup (table_delete st R) R = Absent"
  by (auto simp: own_name_def lookup_def table_delete_def delete_conv' split: option.splits)

text \<open>
  What holds of each listener holds of the dispatch.
\<close>

lemma if_chain:
  assumes "c1 \<Longrightarrow> P a" "c2 \<Longrightarrow> P b" "c3 \<Longrightarrow> P c" "c4 \<Longrightarrow> P d" "c5 \<Longrightarrow> P e"
    "c6 \<Longrightarrow> P f" "c7 \<Longrightarrow> P g" "c8 \<Longrightarrow> P h"
    "\<not> c1 \<Longrightarrow> \<not> c2 \<Longrightarrow> \<not> c3 \<Longrightarrow> \<not> c4 \<Longrightarrow> \<not> c5 \<Longrightarrow> \<not> c6 \<Longrightarrow> \<not> c7 \<Longrightarrow> \<not> c8 \<Longrightarrow> P i"
  shows "P (if c1 then a else if c2 then b else if c3 then c else if c4 then d
            else if c5 then e else if c6 then f else if c7 then g else if c8 then h else i)"
  using assms by simp

lemma on_message_each:
  assumes sender: "get_socket st sid = Some k"
    and "name = ''start-share'' \<Longrightarrow> P (returned (on_start_share stringify st sid data))"
    and "name = ''stop-share'' \<Longrightarrow> P (on_stop_share st sid)"
    and "name = ''get-available'' \<Longrightarrow> P (returned (on_get_available st sid))"
    and "name = ''join-view'' \<Longrightarrow> P (on_join_view stringify st sid data)"
    and "\<And>rk. P (returned (on_relay rk stringify st sid data))"
    and "P (Done st [])"
  shows "P (on_message stringify st sid name data)"
  unfolding on_message_def sender option.case
  by (rule if_chain) (erule assms | rule assms)+



text \<open>
  Outcomes, and the steps of a close.
\<close>

lemma final_prepend [simp]: "final (prepend pre out) = final out"
  by (cases out) simp_all

lemma sent_prepend [simp]: "sent (prepend pre out) = pre @ sent out"
  by (cases out) simp_all

lemma threw_prepend [simp]: "threw (prepend pre out) = threw out"
  by (cases out) simp_all

lemma final_returned [simp]: "final (returned x) = fst x"
  by (cases x) simp

lemma sent_returned [simp]: "sent (returned x) = snd x"
  by (cases x) simp

lemma threw_returned [simp]: "\<not> threw (returned x)"
  by (cases x) simp

lemma final_room_deleted:
  "final (room_deleted rid out) = (if threw out then final out else table_delete (final out) rid)"
  by (cases out) simp_all

lemma on_disconnect_room:
  assumes "sock_of st sid = Some k" "sock_roomId k = Some rid" "rid \<noteq> []"
    "lookup st rid = RoomObj r rm"
  shows "on_disconnect fuel st sid =
     (if isHost k = Some True then
        (case forEach_viewer fuel r 0 (length (viewers rm)) st of
           None \<Rightarrow> None
         | Some out \<Rightarrow> Some (room_deleted rid out))
      else Some (returned (viewer_left st sid r rm)))"
  using assms by simp

lemma on_disconnect_other:
  assumes "\<not> (\<exists>k rid r rm. sock_of st sid = Some k \<and> sock_roomId k = Some rid \<and> rid \<noteq> []
      \<and> lookup st rid = RoomObj r rm)"
  shows "on_disconnect fuel st sid = Some (Done st []) \<or> on_disconnect fuel st sid = Some (Threw st [])"
  using assms by (auto split: option.splits slot.splits)

lemma forEach_step:
  assumes "map_of (objs st) r = Some rm" "i < length (viewers rm)"
  shows "forEach_viewer fuel r i (Suc n) st =
     (case socket_close fuel st (viewers rm ! i) of
        None \<Rightarrow> None
      | Some (Threw st1 outs2) \<Rightarrow>
          Some (Threw st1 (socket_emit st (viewers rm ! i) ''host-disconnected'' JUndefined @ outs2))
      | Some (Done st1 outs2) \<Rightarrow>
          (case forEach_viewer fuel r (Suc i) n st1 of
             None \<Rightarrow> None
           | Some out \<Rightarrow>
               Some (prepend (socket_emit st (viewers rm ! i) ''host-disconnected'' JUndefined
                              @ outs2) out)))"
  using assms by (simp add: Let_def)

lemma forEach_skip:
  assumes "map_of (objs st) r = Some rm" "\<not> i < length (viewers rm)"
  shows "forEach_viewer fuel r i (Suc n) st = forEach_viewer fuel r (Suc i) n st"
  using assms by simp

lemma forEach_gone:
  assumes "map_of (objs st) r = None"
  shows "forEach_viewer fuel r i (Suc n) st = Some (Done st [])"
  using assms by simp

text \<open>A property of states that every step of a close keeps is kept by the close.\<close>

lemma close_keeps:
  assumes det: "\<And>st sid. I st \<Longrightarrow> I (detach st sid)"
    and vl: "\<And>st sid r rm. I st \<Longrightarrow> map_of (objs st) r = Some rm
               \<Longrightarrow> I (fst (viewer_left st sid r rm))"
    and del: "\<And>st rid. I st \<Longrightarrow> I (table_delete st rid)"
  shows "I st \<longrightarrow> (\<forall>out. socket_close fuel st sid = Some out \<longrightarrow> I (final out))"
    and "I st2 \<longrightarrow> (\<forall>out. on_disconnect fuel2 st2 sid2 = Some out \<longrightarrow> I (final out))"
    and "I st3 \<longrightarrow> (\<forall>out. forEach_viewer fuel3 r i n st3 = Some out \<longrightarrow> I (final out))"
proof (induction fuel st sid and fuel2 st2 sid2 and fuel3 r i n st3
    rule: socket_close_on_disconnect_forEach_viewer.induct)
  case (1 st sid)
  then show ?case by simp
next
  case (2 fuel st sid)
  show ?case
  proof (cases "get_socket st sid")
    case None
    then show ?thesis by simp
  next
    case (Some k)
    from 2 [OF Some] Some det [of st sid] show ?thesis by simp
  qed
next
  case (3 fuel st sid)
  show ?case
  proof (intro impI allI)
    fix out
    assume inv: "I st" and res: "on_disconnect fuel st sid = Some out"
    show "I (final out)"
    proof (cases "\<exists>k rid r rm. sock_of st sid = Some k \<and> sock_roomId k = Some rid \<and> rid \<noteq> []
        \<and> lookup st rid = RoomObj r rm")
      case False
      from on_disconnect_other [OF False, of fuel] res inv show ?thesis by auto
    next
      case True
      then obtain k rid r rm where k: "sock_of st sid = Some k" "sock_roomId k = Some rid"
          "rid \<noteq> []" "lookup st rid = RoomObj r rm"
        by blast
      note eq = on_disconnect_room [OF k, of fuel]
      show ?thesis
      proof (cases "isHost k = Some True")
        case True
        with eq res obtain out1
          where f: "forEach_viewer fuel r 0 (length (viewers rm)) st = Some out1"
            and out: "out = room_deleted rid out1"
          by (auto split: option.splits)
        from 3 [OF k True] inv f have "I (final out1)" by blast
        then show ?thesis by (simp add: out final_room_deleted del)
      next
        case False
        with eq res have "out = returned (viewer_left st sid r rm)" by simp
        moreover from k(4) have "map_of (objs st) r = Some rm" by (rule lookup_RoomObj_objs)
        ultimately show ?thesis using vl [OF inv] by simp
      qed
    qed
  qed
next
  case (4 fuel r i st)
  then show ?case by simp
next
  case (5 fuel r i n st)
  show ?case
  proof (intro impI allI)
    fix out
    assume inv: "I st" and res: "forEach_viewer fuel r i (Suc n) st = Some out"
    show "I (final out)"
    proof (cases "map_of (objs st) r")
      case None
      with res inv show ?thesis by auto
    next
      case (Some rm)
      show ?thesis
      proof (cases "i < length (viewers rm)")
        case False
        with res Some have "forEach_viewer fuel r (Suc i) n st = Some out" by simp
        with "5.IH"(3) [OF Some False] inv show ?thesis by blast
      next
        case True
        note eq = forEach_step [OF Some True, of fuel n]
        from res have res': "(case socket_close fuel st (viewers rm ! i) of
            None \<Rightarrow> None
          | Some (Threw st1 outs2) \<Rightarrow>
              Some (Threw st1 (socket_emit st (viewers rm ! i) ''host-disconnected'' JUndefined
                               @ outs2))
          | Some (Done st1 outs2) \<Rightarrow>
              (case forEach_viewer fuel r (Suc i) n st1 of
                 None \<Rightarrow> None
               | Some out \<Rightarrow>
                   Some (prepend (socket_emit st (viewers rm ! i) ''host-disconnected'' JUndefined
                                  @ outs2) out))) = Some out"
          unfolding eq .
        then obtain o1 where c: "socket_close fuel st (viewers rm ! i) = Some o1"
          by (cases "socket_close fuel st (viewers rm ! i)") auto
        from "5.IH"(1) [OF Some True refl refl] inv c have i1: "I (final o1)" by blast
        show ?thesis
        proof (cases o1)
          case (Threw st1 outs2)
          with res' c have "final out = st1" by auto
          with i1 Threw show ?thesis by simp
        next
          case (Done st1 outs2)
          with res' c obtain out2 where f: "forEach_viewer fuel r (Suc i) n st1 = Some out2"
            and out: "final out = final out2"
            by (cases "forEach_viewer fuel r (Suc i) n st1") auto
          from i1 Done have "I st1" by simp
          with "5.IH"(2) [OF Some True refl refl c Done] f have "I (final out2)" by blast
          with out show ?thesis by simp
        qed
      qed
    qed
  qed
qed

text \<open>
  Closing a socket returns once the fuel exceeds the number of connected sockets, and
  more fuel does not change what it returns.
\<close>

lemma live_update:
  "map_of al sid = Some k \<Longrightarrow> connected k \<Longrightarrow> \<not> connected k'
     \<Longrightarrow> Suc (length (filter (\<lambda>(s, k). connected k) (AList.update sid k' al)))
         = length (filter (\<lambda>(s, k). connected k) al)"
  by (induction al) (auto split: if_splits)

lemma live_detach:
  assumes "get_socket st sid = Some k"
  shows "Suc (live (detach st sid)) = live st"
proof -
  from assms have k: "map_of (sockets st) sid = Some k" "connected k"
    by (auto simp: get_socket_def sock_of_def split: option.splits if_splits)
  then show ?thesis
    by (simp add: detach_def upd_sock_def live_def sock_of_def live_update)
qed

lemma live_rooms_update [simp]: "live (st\<lparr>rooms := x\<rparr>) = live st"
  by (simp add: live_def)

lemma live_objs_update [simp]: "live (st\<lparr>objs := x\<rparr>) = live st"
  by (simp add: live_def)

lemma live_table_delete [simp]: "live (table_delete st rid) = live st"
  by (simp add: live_def)

lemma live_viewer_left [simp]: "live (fst (viewer_left st sid r rm)) = live st"
  by (auto simp: viewer_left_def Let_def)

lemma live_room_deleted [simp]: "live (final (room_deleted rid out)) = live (final out)"
  by (cases out) simp_all

lemma close_returns:
  "live st < fuel \<longrightarrow> (\<exists>out. socket_close fuel st sid = Some out \<and> live (final out) \<le> live st)"
  "live st2 < fuel2 \<longrightarrow>
     (\<exists>out. on_disconnect fuel2 st2 sid2 = Some out \<and> live (final out) \<le> live st2)"
  "live st3 < fuel3 \<longrightarrow>
     (\<exists>out. forEach_viewer fuel3 r i n st3 = Some out \<and> live (final out) \<le> live st3)"
proof (induction fuel st sid and fuel2 st2 sid2 and fuel3 r i n st3
    rule: socket_close_on_disconnect_forEach_viewer.induct)
  case (1 st sid)
  then show ?case by simp
next
  case (2 fuel st sid)
  show ?case
  proof (cases "get_socket st sid")
    case None
    then show ?thesis by simp
  next
    case (Some k)
    have l: "Suc (live (detach st sid)) = live st" using Some by (rule live_detach)
    show ?thesis
    proof
      assume "live st < Suc fuel"
      with l have "live (detach st sid) < fuel" by simp
      with 2 [OF Some] obtain out
        where "on_disconnect fuel (detach st sid) sid = Some out"
          and "live (final out) \<le> live (detach st sid)" by blast
      with Some l show "\<exists>out. socket_close (Suc fuel) st sid = Some out
          \<and> live (final out) \<le> live st"
        by auto
    qed
  qed
next
  case (3 fuel st sid)
  show ?case
  proof
    assume le: "live st < fuel"
    show "\<exists>out. on_disconnect fuel st sid = Some out \<and> live (final out) \<le> live st"
    proof (cases "\<exists>k rid r rm. sock_of st sid = Some k \<and> sock_roomId k = Some rid \<and> rid \<noteq> []
        \<and> lookup st rid = RoomObj r rm")
      case False
      from on_disconnect_other [OF False, of fuel] show ?thesis by auto
    next
      case True
      then obtain k rid r rm where k: "sock_of st sid = Some k" "sock_roomId k = Some rid"
          "rid \<noteq> []" "lookup st rid = RoomObj r rm"
        by blast
      note eq = on_disconnect_room [OF k, of fuel]
      show ?thesis
      proof (cases "isHost k = Some True")
        case True
        from 3 [OF k True] le obtain out1
          where f: "forEach_viewer fuel r 0 (length (viewers rm)) st = Some out1"
            and l: "live (final out1) \<le> live st" by blast
        from eq True f have "on_disconnect fuel st sid = Some (room_deleted rid out1)" by simp
        with l show ?thesis by simp
      next
        case False
        with eq have "on_disconnect fuel st sid = Some (returned (viewer_left st sid r rm))"
          by simp
        then show ?thesis by simp
      qed
    qed
  qed
next
  case (4 fuel r i st)
  then show ?case by simp
next
  case (5 fuel r i n st)
  show ?case
  proof
    assume le: "live st < fuel"
    show "\<exists>out. forEach_viewer fuel r i (Suc n) st = Some out \<and> live (final out) \<le> live st"
    proof (cases "map_of (objs st) r")
      case None
      then show ?thesis by simp
    next
      case (Some rm)
      show ?thesis
      proof (cases "i < length (viewers rm)")
        case False
        with "5.IH"(3) [OF Some False] le Some show ?thesis by simp
      next
        case True
        note eq = forEach_step [OF Some True, of fuel n]
        from "5.IH"(1) [OF Some True refl refl] le obtain o1
          where c: "socket_close fuel st (viewers rm ! i) = Some o1"
            and l1: "live (final o1) \<le> live st" by blast
        show ?thesis
        proof (cases o1)
          case (Threw st1 outs2)
          with c l1 show ?thesis unfolding eq by simp
        next
          case (Done st1 outs2)
          with l1 le have "live st1 < fuel" by simp
          with "5.IH"(2) [OF Some True refl refl c Done] obtain out2
            where f: "forEach_viewer fuel r (Suc i) n st1 = Some out2"
              and l2: "live (final out2) \<le> live st1" by blast
          with c Done l1 show ?thesis unfolding eq by simp
        qed
      qed
    qed
  qed
qed

lemma socket_close_total: "\<exists>out. socket_close (Suc (live st)) st sid = Some out"
  using close_returns(1) [of st "Suc (live st)" sid] by auto

lemma fuel_mono:
  "\<forall>res. socket_close fuel st sid = Some res \<longrightarrow> socket_close (Suc fuel) st sid = Some res"
  "\<forall>res. on_disconnect fuel2 st2 sid2 = Some res
      \<longrightarrow> on_disconnect (Suc fuel2) st2 sid2 = Some res"
  "\<forall>res. forEach_viewer fuel3 r i n st3 = Some res
      \<longrightarrow> forEach_viewer (Suc fuel3) r i n st3 = Some res"
proof (induction fuel st sid and fuel2 st2 sid2 and fuel3 r i n st3
    rule: socket_close_on_disconnect_forEach_viewer.induct)
  case (1 st sid)
  then show ?case by simp
next
  case (2 fuel st sid)
  show ?case
  proof (cases "get_socket st sid")
    case None
    then show ?thesis by simp
  next
    case (Some k)
    from 2 [OF Some] Some show ?thesis by simp
  qed
next
  case (3 fuel st sid)
  show ?case
  proof (intro allI impI)
    fix res
    assume res: "on_disconnect fuel st sid = Some res"
    show "on_disconnect (Suc fuel) st sid = Some res"
    proof (cases "\<exists>k rid r rm. sock_of st sid = Some k \<and> sock_roomId k = Some rid \<and> rid \<noteq> []
        \<and> lookup st rid = RoomObj r rm \<and> isHost k = Some True")
      case False
      with res show ?thesis by (auto split: option.splits if_splits slot.splits)
    next
      case True
      then obtain k rid r rm where k: "sock_of st sid = Some k" "sock_roomId k = Some rid"
          "rid \<noteq> []" "lookup st rid = RoomObj r rm" and h: "isHost k = Some True"
        by blast
      from res obtain out1
        where f: "forEach_viewer fuel r 0 (length (viewers rm)) st = Some out1"
          and r: "res = room_deleted rid out1"
        unfolding on_disconnect_room [OF k] using h by (auto split: option.splits)
      from 3 [OF k h] f
      have "forEach_viewer (Suc fuel) r 0 (length (viewers rm)) st = Some out1" by simp
      with h r show ?thesis unfolding on_disconnect_room [OF k] by simp
    qed
  qed
next
  case (4 fuel r i st)
  then show ?case by simp
next
  case (5 fuel r i n st)
  show ?case
  proof (intro allI impI)
    fix res3
    assume res: "forEach_viewer fuel r i (Suc n) st = Some res3"
    show "forEach_viewer (Suc fuel) r i (Suc n) st = Some res3"
    proof (cases "map_of (objs st) r")
      case None
      with res show ?thesis by simp
    next
      case (Some rm)
      show ?thesis
      proof (cases "i < length (viewers rm)")
        case False
        with res Some have "forEach_viewer fuel r (Suc i) n st = Some res3" by simp
        with "5.IH"(3) [OF Some False] have "forEach_viewer (Suc fuel) r (Suc i) n st = Some res3"
          by blast
        with Some False show ?thesis by simp
      next
        case True
        note eq = forEach_step [OF Some True, of _ n]
        from res [unfolded eq] obtain o1 where c: "socket_close fuel st (viewers rm ! i) = Some o1"
          by (cases "socket_close fuel st (viewers rm ! i)") auto
        from "5.IH"(1) [OF Some True refl refl] c
        have c': "socket_close (Suc fuel) st (viewers rm ! i) = Some o1" by simp
        show ?thesis
        proof (cases o1)
          case (Threw st1 outs2)
          with res [unfolded eq] c c' show ?thesis unfolding eq by simp
        next
          case (Done st1 outs2)
          with res [unfolded eq] c obtain out2
            where f: "forEach_viewer fuel r (Suc i) n st1 = Some out2"
              and r: "res3 = prepend (socket_emit st (viewers rm ! i) ''host-disconnected''
                         JUndefined @ outs2) out2"
            by (cases "forEach_viewer fuel r (Suc i) n st1") auto
          from "5.IH"(2) [OF Some True refl refl c Done] f
          have "forEach_viewer (Suc fuel) r (Suc i) n st1 = Some out2" by simp
          with c' Done r show ?thesis unfolding eq by simp
        qed
      qed
    qed
  qed
qed

lemma socket_close_more_fuel:
  "socket_close n st sid = Some res \<Longrightarrow> socket_close (n + m) st sid = Some res"
proof (induction m)
  case 0
  then show ?case by simp
next
  case (Suc m)
  then have "socket_close (n + m) st sid = Some res" by simp
  with fuel_mono(1) have "socket_close (Suc (n + m)) st sid = Some res" by blast
  then show ?case by (simp only: add_Suc_right)
qed

lemma handle_more_fuel:
  "handle n stringify st e = Some res \<Longrightarrow> handle (n + m) stringify st e = Some res"
  by (cases e) (simp_all add: handle_def socket_close_more_fuel)

lemma run_more_fuel:
  "run n stringify st es = Some res \<Longrightarrow> run (n + m) stringify st es = Some res"
proof (induction es arbitrary: st res)
  case Nil
  then show ?case by simp
next
  case (Cons e es)
  from Cons.prems obtain o1 where h: "handle n stringify st e = Some o1"
    by (auto split: option.splits)
  then have h': "handle (n + m) stringify st e = Some o1" by (rule handle_more_fuel)
  show ?case
  proof (cases o1)
    case (Threw st1 outs1)
    with Cons.prems h have "res = Threw st1 outs1" by simp
    with h' Threw show ?thesis by simp
  next
    case (Done st1 outs1)
    with Cons.prems h obtain out where r: "run n stringify st1 es = Some out"
      and res: "res = prepend outs1 out"
      by (auto split: option.splits)
    from r have "run (n + m) stringify st1 es = Some out" by (rule Cons.IH)
    with h' Done res show ?thesis by simp
  qed
qed

text \<open>
  Room objects without duplicate viewers, step by step.
\<close>

lemma update_entries:
  "(a, b) \<in> set (AList.update k v al) \<Longrightarrow> (a, b) = (k, v) \<or> (a, b) \<in> set al"
  by (induction al) (auto split: if_splits)

lemma dv_same: "objs st' = objs st \<Longrightarrow> distinct_viewers st' = distinct_viewers st"
  by (simp add: distinct_viewers_def)

lemma dv_upd_sock [simp]: "distinct_viewers (upd_sock st sid f) = distinct_viewers st"
  by (rule dv_same) simp

lemma dv_table_delete [simp]: "distinct_viewers (table_delete st rid) = distinct_viewers st"
  by (rule dv_same) simp

lemma dv_table_set [simp]: "distinct_viewers (table_set st rid r) = distinct_viewers st"
  by (rule dv_same) simp

lemma dv_leave_all [simp]: "distinct_viewers (leave_all vs R st) = distinct_viewers st"
  by (rule dv_same) simp

lemma dv_detach [simp]: "distinct_viewers (detach st sid) = distinct_viewers st"
  by (rule dv_same) simp

lemma dv_objs_update:
  "distinct_viewers st \<Longrightarrow> distinct (viewers rm)
     \<Longrightarrow> distinct_viewers (st\<lparr>objs := AList.update r rm (objs st)\<rparr>)"
  by (auto simp: distinct_viewers_def dest: update_entries)

lemma dv_lookup:
  "distinct_viewers st \<Longrightarrow> map_of (objs st) r = Some rm \<Longrightarrow> distinct (viewers rm)"
  by (auto simp: distinct_viewers_def dest: map_of_SomeD)

lemma dv_start_share:
  assumes "distinct_viewers st" "on_start_share stringify st sid data = (st', outs)"
  shows "distinct_viewers st'"
proof (cases "validateEvent stringify ''start-share'' data")
  case Valid
  have "distinct_viewers (st\<lparr>objs := AList.update r \<lparr>host = sid, viewers = []\<rparr> (objs st),
          fresh := n\<rparr>)" for r n
    using assms(1) by (auto simp: distinct_viewers_def dest: update_entries)
  with assms(2) Valid show ?thesis
    by (auto simp: on_start_share_def Let_def socket_join_def)
next
  case (Invalid e)
  with assms show ?thesis by (simp add: on_start_share_def)
qed

lemma dv_stop_share:
  assumes "distinct_viewers st"
  shows "distinct_viewers (final (on_stop_share st sid))"
  using assms by (auto simp: on_stop_share_def Let_def split: option.splits slot.splits)

lemma dv_join_view:
  assumes dv: "distinct_viewers st" and g: "joins_fresh st (Message sid ''join-view'' data)"
  shows "distinct_viewers (final (on_join_view stringify st sid data))"
proof (cases "final (on_join_view stringify st sid data) = st")
  case True
  with dv show ?thesis by simp
next
  case False
  then obtain R r rm where R: "roomId (or_empty data) = Some R"
    and l: "lookup st R = RoomObj r rm"
    and st': "final (on_join_view stringify st sid data) = upd_sock (socket_join
                (st\<lparr>objs := AList.update r (rm\<lparr>viewers := viewers rm @ [sid]\<rparr>) (objs st)\<rparr>) sid R)
                sid (\<lambda>k. k\<lparr>sock_roomId := Some R, isHost := Some False\<rparr>)"
    by (auto simp: on_join_view_def Let_def
        split: validation.splits option.splits if_splits slot.splits)
  from g R l have "sid \<notin> set (viewers rm)"
    by (simp add: joins_fresh_def room_at_def)
  moreover from l have "map_of (objs st) r = Some rm" by (rule lookup_RoomObj_objs)
  with dv have "distinct (viewers rm)" by (rule dv_lookup)
  ultimately have "distinct (viewers (rm\<lparr>viewers := viewers rm @ [sid]\<rparr>))" by simp
  with dv have "distinct_viewers
      (st\<lparr>objs := AList.update r (rm\<lparr>viewers := viewers rm @ [sid]\<rparr>) (objs st)\<rparr>)"
    by (rule dv_objs_update)
  then show ?thesis by (simp add: st' socket_join_def)
qed

lemma dv_viewer_left:
  assumes "distinct_viewers st" "map_of (objs st) r = Some rm"
  shows "distinct_viewers (fst (viewer_left st sid r rm))"
proof -
  from assms have "distinct (viewers rm)" by (rule dv_lookup)
  then have "distinct (viewers (rm\<lparr>viewers := remove1 sid (viewers rm)\<rparr>))" by simp
  with assms(1) have "distinct_viewers
      (st\<lparr>objs := AList.update r (rm\<lparr>viewers := remove1 sid (viewers rm)\<rparr>) (objs st)\<rparr>)"
    by (rule dv_objs_update)
  with assms show ?thesis by (auto simp: viewer_left_def Let_def)
qed

lemma dv_close:
  assumes "distinct_viewers st" "socket_close fuel st sid = Some out"
  shows "distinct_viewers (final out)"
  using close_keeps(1) [of distinct_viewers st fuel sid] assms dv_viewer_left
  by simp

lemma dv_handle:
  assumes dv: "distinct_viewers st" and g: "joins_fresh st e"
    and h: "handle fuel stringify st e = Some out"
  shows "distinct_viewers (final out)"
proof (cases e)
  case (Connect sid)
  with h have "out = Done (on_connect st sid) []" by (simp add: handle_def)
  moreover have "distinct_viewers (on_connect st sid)"
    using dv by (simp add: on_connect_def distinct_viewers_def)
  ultimately show ?thesis by simp
next
  case (Message sid name data)
  with h have out: "out = on_message stringify st sid name data" by (simp add: handle_def)
  show ?thesis
  proof (cases "get_socket st sid")
    case None
    with out dv show ?thesis by (simp add: on_message_def)
  next
    case (Some k)
    have "distinct_viewers (final (on_message stringify st sid name data))"
    proof (rule on_message_each [OF Some])
      show "distinct_viewers (final (returned (on_start_share stringify st sid data)))"
        using dv_start_share [OF dv prod.collapse [symmetric]] by simp
      show "distinct_viewers (final (on_stop_share st sid))" using dv by (rule dv_stop_share)
      show "distinct_viewers (final (returned (on_get_available st sid)))"
        using dv by (simp add: on_get_available_def Let_def)
      show "distinct_viewers (final (on_join_view stringify st sid data))"
        if "name = ''join-view''"
        using dv g Message that by (simp add: dv_join_view)
      show "distinct_viewers (final (returned (on_relay rk stringify st sid data)))" for rk
        using relay_same [OF prod.collapse [symmetric], of rk stringify st sid data] dv
        by simp
      show "distinct_viewers (final (Done st []))" using dv by simp
    qed
    with out show ?thesis by simp
  qed
next
  case (Disconnect sid)
  with h have "socket_close fuel st sid = Some out" by (simp add: handle_def)
  with dv show ?thesis by (rule dv_close)
qed

lemma dv_init: "distinct_viewers init"
  by (simp add: distinct_viewers_def init_def)

lemma reach_dv: "reach stringify joins_fresh st \<Longrightarrow> distinct_viewers st"
proof (induction rule: reach.induct)
  case start
  show ?case by (rule dv_init)
next
  case (step st e fuel st' outs)
  from step.IH step.hyps(2,3) have "distinct_viewers (final (Done st' outs))"
    by (rule dv_handle)
  then show ?case by simp
qed

lemma reach_run_guarded:
  "reach stringify guard st \<Longrightarrow> run_guarded guard fuel stringify st es = Some st'
     \<Longrightarrow> reach stringify guard st'"
proof (induction es arbitrary: st)
  case Nil
  then show ?case by simp
next
  case (Cons e es)
  from Cons.prems(2) obtain st1 outs where g: "guard st e"
    and h: "handle fuel stringify st e = Some (Done st1 outs)"
    and r: "run_guarded guard fuel stringify st1 es = Some st'"
    by (auto split: if_splits option.splits outcome.splits)
  from Cons.prems(1) g h have "reach stringify guard st1" by (rule reach.step)
  then show ?case using r by (rule Cons.IH)
qed















text \<open>
  The three outcomes of a validated \<^verbatim>\<open>join-view\<close> with a non-empty room id.
\<close>

lemma join_view_cases:
  assumes valid: "validateEvent stringify ''join-view'' data = Valid"
    and rid: "roomId (or_empty data) = Some R" "R \<noteq> []"
    and sender: "get_socket st sid = Some k"
  shows "(lookup st R = Absent \<longrightarrow>
           on_join_view stringify st sid data =
             Done st [\<lparr>rcpts = {sid}, ev = ''error'', arg = JStr ''Room not found''\<rparr>])
       \<and> (lookup st R = Inherited \<longrightarrow> on_join_view stringify st sid data = Threw st [])
       \<and> (room_at st R = Some rm \<longrightarrow>
           (\<exists>st'. on_join_view stringify st sid data =
                    Done st' [\<lparr>rcpts = in_room st' R, ev = ''viewer-joined'',
                               arg = JObj [(''viewerId'', JStr sid)]\<rparr>,
                             \<lparr>rcpts = {sid}, ev = ''view-joined'',
                               arg = JObj [(''roomId'', JStr R)]\<rparr>]
                \<and> room_at st' R = Some (rm\<lparr>viewers := viewers rm @ [sid]\<rparr>)
                \<and> (\<exists>k'. sock_of st' sid = Some k' \<and> isHost k' = Some False
                         \<and> sock_roomId k' = Some R)))"
proof -
  from sender obtain k0: "sock_of st sid = Some k" "connected k"
    by (auto simp: get_socket_def split: option.splits if_splits)
  have a: "lookup st R = Absent \<longrightarrow> on_join_view stringify st sid data =
      Done st [\<lparr>rcpts = {sid}, ev = ''error'', arg = JStr ''Room not found''\<rparr>]"
    using valid rid sender by (simp add: on_join_view_def socket_emit_def)
  have b: "lookup st R = Inherited \<longrightarrow> on_join_view stringify st sid data = Threw st []"
    using valid rid by (simp add: on_join_view_def)
  have c: "room_at st R = Some rm \<longrightarrow>
           (\<exists>st'. on_join_view stringify st sid data =
                    Done st' [\<lparr>rcpts = in_room st' R, ev = ''viewer-joined'',
                               arg = JObj [(''viewerId'', JStr sid)]\<rparr>,
                             \<lparr>rcpts = {sid}, ev = ''view-joined'',
                               arg = JObj [(''roomId'', JStr R)]\<rparr>]
                \<and> room_at st' R = Some (rm\<lparr>viewers := viewers rm @ [sid]\<rparr>)
                \<and> (\<exists>k'. sock_of st' sid = Some k' \<and> isHost k' = Some False
                         \<and> sock_roomId k' = Some R))"
  proof
    assume "room_at st R = Some rm"
    then obtain r where l: "lookup st R = RoomObj r rm" by (auto simp: room_at_RoomObj)
    let ?st1 = "st\<lparr>objs := AList.update r (rm\<lparr>viewers := viewers rm @ [sid]\<rparr>) (objs st)\<rparr>"
    let ?st3 = "upd_sock (socket_join ?st1 sid R) sid
                  (\<lambda>k. k\<lparr>sock_roomId := Some R, isHost := Some False\<rparr>)"
    from l have l1: "lookup ?st1 R = RoomObj r (rm\<lparr>viewers := viewers rm @ [sid]\<rparr>)"
      by (rule lookup_objs_update)
    have s1: "sock_of ?st1 sid = Some k" using k0 by simp
    have g: "get_socket ?st3 sid \<noteq> None"
      using k0 by (simp add: socket_join_def get_socket_upd_sock sock_of_upd_sock)
    have "on_join_view stringify st sid data =
        Done ?st3 (io_to_emit ?st3 R ''viewer-joined'' (JObj [(''viewerId'', JStr sid)])
                   @ socket_emit ?st3 sid ''view-joined'' (JObj [(''roomId'', JStr R)]))"
      using valid rid l by (simp add: on_join_view_def Let_def)
    moreover have "room_at ?st3 R = Some (rm\<lparr>viewers := viewers rm @ [sid]\<rparr>)"
      using l1 by (simp add: room_at_def socket_join_def)
    moreover have "\<exists>k'. sock_of ?st3 sid = Some k' \<and> isHost k' = Some False
        \<and> sock_roomId k' = Some R"
      using s1 by (simp add: socket_join_def sock_of_upd_sock)
    ultimately show "\<exists>st'. on_join_view stringify st sid data =
                    Done st' [\<lparr>rcpts = in_room st' R, ev = ''viewer-joined'',
                               arg = JObj [(''viewerId'', JStr sid)]\<rparr>,
                             \<lparr>rcpts = {sid}, ev = ''view-joined'',
                               arg = JObj [(''roomId'', JStr R)]\<rparr>]
                \<and> room_at st' R = Some (rm\<lparr>viewers := viewers rm @ [sid]\<rparr>)
                \<and> (\<exists>k'. sock_of st' sid = Some k' \<and> isHost k' = Some False
                         \<and> sock_roomId k' = Some R)"
      using g by (auto simp: io_to_emit_def socket_emit_def)
  qed
  from a b c show ?thesis by blast
qed

subsection \<open>Validation\<close>




subsection \<open>Relay\<close>

text \<open>
  C1. A validated \<^verbatim>\<open>offer\<close>, \<^verbatim>\<open>answer\<close>, \<^verbatim>\<open>ice\<close> or \<^verbatim>\<open>ice-candidate\<close> event of
  sender \<open>sid\<close> that carries a truthy \<open>targetId\<close> and a truthy payload property is
  delivered to the target alone, as \<^verbatim>\<open>{ payload, fromId: sid }\<close>, exactly when the target
  is a connected socket whose \<^verbatim>\<open>roomId\<close> is strictly equal to the sender's; otherwise
  nothing is sent, to nobody, and in both cases the state is unchanged.
\<close>

theorem targeted_relay:
  assumes kind: "rk \<in> {offer_kind, answer_kind, ice_kind, ice_candidate_kind}"
    and valid: "validateEvent stringify (inbound rk) data = Valid"
    and target: "targetId (or_empty data) = Some t" "t \<noteq> []"
    and payload: "truthy (field rk (or_empty data))"
    and sender: "sock_of st sid = Some k"
  shows "on_relay rk stringify st sid data =
           (st, if \<exists>tk. get_socket st t = Some tk \<and> sock_roomId tk = sock_roomId k
                then [\<lparr>rcpts = {t}, ev = outbound rk,
                       arg = JObj [(key rk, field rk (or_empty data)), (''fromId'', JStr sid)]\<rparr>]
                else [])"
  using valid target payload sender
  by (auto simp: on_relay_def truthy_id_def socket_emit_def relayed_def Let_def
      split: option.splits)

theorem targeted_relay_witness:
  "on_relay offer_kind tiny party ''A'' (offer_to ''C'') =
     (party, [\<lparr>rcpts = {''C''}, ev = ''offer'',
               arg = JObj [(''offer'', JStr ''X''), (''fromId'', JStr ''A'')]\<rparr>])
   \<and> on_relay offer_kind tiny party ''A'' (offer_to ''D'') = (party, [])
   \<and> on_relay offer_kind tiny party ''A'' (offer_to ''Z'') = (party, [])"
proof -
  let ?k = "\<lparr>sock_roomId = Some ''R'', isHost = Some True, connected = True,
              joined = {''R'', ''A''}\<rparr>"
  have h1: "offer_kind \<in> {offer_kind, answer_kind, ice_kind, ice_candidate_kind}" by simp
  have h2: "validateEvent tiny (inbound offer_kind) (offer_to x) = Valid" for x
    by (simp add: tiny_valid offer_kind_def allowedEvents_def)
  have h3: "targetId (or_empty (offer_to x)) = Some x" for x
    by (simp add: offer_to_def or_empty_def no_fields_def)
  have h5: "truthy (field offer_kind (or_empty (offer_to x)))" for x
    by (simp add: offer_to_def or_empty_def no_fields_def offer_kind_def)
  have h6: "sock_of party ''A'' = Some ?k" by (simp add: sock_of_def party_def)
  have n: "''C'' \<noteq> []" "''D'' \<noteq> []" "''Z'' \<noteq> []" by simp_all
  show ?thesis
    using targeted_relay [OF h1 h2 h3 n(1) h5 h6] targeted_relay [OF h1 h2 h3 n(2) h5 h6]
      targeted_relay [OF h1 h2 h3 n(3) h5 h6]
    by (simp add: get_socket_def sock_of_def party_def offer_kind_def offer_to_def
        or_empty_def no_fields_def)
qed

subsection \<open>Creating a room\<close>

text \<open>
  C2. After a validated \<^verbatim>\<open>start-share\<close> of connection \<open>sid\<close>, with \<open>rid\<close> the
  \<open>roomId\<close> of the payload when that is truthy and \<open>sid\<close> otherwise, the table yields
  under \<open>rid\<close> a room with host \<open>sid\<close> and no viewers (whatever it held before), the
  socket has \<^verbatim>\<open>isHost = true\<close> and \<^verbatim>\<open>roomId = rid\<close> and has joined the broadcast room
  \<open>rid\<close>, and the one outbound event is \<^verbatim>\<open>room-created { roomId }\<close> to the sockets of
  that broadcast room.
\<close>

theorem start_share_creates_room:
  assumes valid: "validateEvent stringify ''start-share'' data = Valid"
    and sender: "sock_of st sid = Some k"
    and rid: "(roomId (or_empty data) = Some rid \<and> rid \<noteq> [])
              \<or> (\<not> truthy_id (roomId (or_empty data)) \<and> rid = sid)"
    and res: "on_start_share stringify st sid data = (st', outs)"
  shows "room_at st' rid = Some \<lparr>host = sid, viewers = []\<rparr>
         \<and> (\<exists>k'. sock_of st' sid = Some k' \<and> isHost k' = Some True \<and> sock_roomId k' = Some rid
                  \<and> rid \<in> joined k')
         \<and> outs = [\<lparr>rcpts = in_room st' rid, ev = ''room-created'',
                     arg = JObj [(''roomId'', JStr rid)]\<rparr>]"
proof -
  let ?st0 = "st\<lparr>objs := AList.update (fresh st) \<lparr>host = sid, viewers = []\<rparr> (objs st),
                  fresh := Suc (fresh st)\<rparr>"
  let ?st1 = "table_set ?st0 rid (fresh st)"
  let ?st3 = "upd_sock (socket_join ?st1 sid rid) sid
                (\<lambda>k. k\<lparr>sock_roomId := Some rid, isHost := Some True\<rparr>)"
  from rid have r: "(case roomId (or_empty data) of None \<Rightarrow> sid
                     | Some s \<Rightarrow> if s \<noteq> [] then s else sid) = rid"
    by (auto simp: truthy_id_def split: option.splits)
  from valid res r have st': "st' = ?st3"
    and outs: "outs = io_to_emit ?st3 rid ''room-created'' (JObj [(''roomId'', JStr rid)])"
    by (auto simp add: on_start_share_def Let_def)
  have "map_of (objs ?st0) (fresh st) = Some \<lparr>host = sid, viewers = []\<rparr>"
    by (simp add: update_conv')
  then have "lookup ?st1 rid = RoomObj (fresh st) \<lparr>host = sid, viewers = []\<rparr>"
    by (rule lookup_table_set_same)
  then have a: "room_at st' rid = Some \<lparr>host = sid, viewers = []\<rparr>"
    by (simp add: st' room_at_def socket_join_def)
  have "sock_of ?st1 sid = Some k" using sender by simp
  then have b: "\<exists>k'. sock_of st' sid = Some k' \<and> isHost k' = Some True
      \<and> sock_roomId k' = Some rid \<and> rid \<in> joined k'"
    by (simp add: st' socket_join_def sock_of_upd_sock)
  from a b outs st' show ?thesis by (simp add: io_to_emit_def)
qed

theorem start_share_creates_room_witness:
  "room_at (fst (on_start_share tiny party ''D'' (with_room ''R''))) ''R''
     = Some \<lparr>host = ''D'', viewers = []\<rparr>
   \<and> snd (on_start_share tiny party ''D'' (with_room ''R''))
     = [\<lparr>rcpts = {''A'', ''C'', ''E'', ''D''}, ev = ''room-created'',
         arg = JObj [(''roomId'', JStr ''R'')]\<rparr>]
   \<and> room_at (fst (on_start_share tiny party ''D'' None)) ''D''
     = Some \<lparr>host = ''D'', viewers = []\<rparr>"
proof -
  let ?k = "\<lparr>sock_roomId = None, isHost = None, connected = True, joined = {''D''}\<rparr>"
  have v: "validateEvent tiny ''start-share'' x = Valid" for x
    by (simp add: tiny_valid allowedEvents_def)
  have s: "sock_of party ''D'' = Some ?k" by (simp add: sock_of_def party_def)
  have r1: "(roomId (or_empty (with_room ''R'')) = Some ''R'' \<and> ''R'' \<noteq> [])
              \<or> (\<not> truthy_id (roomId (or_empty (with_room ''R''))) \<and> ''R'' = ''D'')"
    by (simp add: with_room_def or_empty_def no_fields_def)
  have r2: "(roomId (or_empty None) = Some ''D'' \<and> ''D'' \<noteq> [])
              \<or> (\<not> truthy_id (roomId (or_empty None)) \<and> ''D'' = ''D'')"
    by (simp add: or_empty_def no_fields_def truthy_id_def)
  have p: "on_start_share tiny party ''D'' x =
             (fst (on_start_share tiny party ''D'' x), snd (on_start_share tiny party ''D'' x))" for x
    by simp
  have i: "in_room (fst (on_start_share tiny party ''D'' (with_room ''R''))) ''R''
             = {''A'', ''C'', ''E'', ''D''}"
    by (simp add: evals)
  show ?thesis
    using start_share_creates_room [OF v s r1 p] start_share_creates_room [OF v s r2 p] i
    by simp
qed

subsection \<open>Joining a room\<close>

text \<open>
  C3 asks that a \<^verbatim>\<open>join-view\<close> for a room id under which no room exists is answered
  \<^verbatim>\<open>Room not found\<close>, with no change of state. On \<open>no_such_room\<close> (a server without
  rooms; \<open>D\<close> asks for the room \<^verbatim>\<open>toString\<close>) the table, a plain object, yields the
  function it inherits under that name, which is truthy: the \<^verbatim>\<open>Room not found\<close> branch
  is skipped, nothing is sent to \<open>D\<close>, and \<^verbatim>\<open>room.viewers.push\<close> throws a
  \<^verbatim>\<open>TypeError\<close> that nothing catches. (For room ids that the table does not inherit,
  \<open>join_view_cases\<close> gives the behaviour that C3 states.)
\<close>

theorem join_prototype_name_throws:
  "(case run 0 tiny init no_such_room of
      Some (Threw st outs) \<Rightarrow> outs = [] \<and> rooms st = [] \<and> room_at st ''toString'' = None
    | _ \<Rightarrow> False)"
  by (simp add: evals handle_def on_connect_def init_def no_such_room_def)

subsection \<open>Errors\<close>

text \<open>
  C5. An inbound event that makes the server emit an \<^verbatim>\<open>error\<close> event leaves the whole
  state as it was: the room table, the room objects, and every socket's \<^verbatim>\<open>roomId\<close>,
  \<^verbatim>\<open>isHost\<close>, connection flag and broadcast rooms; and its listener returns without
  throwing.
\<close>

theorem error_leaves_state:
  assumes "d \<in> set (sent (on_message stringify st sid name data))"
    and "ev d = ''error''"
  shows "final (on_message stringify st sid name data) = st
         \<and> \<not> threw (on_message stringify st sid name data)"
proof (cases "get_socket st sid")
  case None
  then show ?thesis by (simp add: on_message_def)
next
  case (Some k)
  let ?P = "\<lambda>out. d \<in> set (sent out) \<longrightarrow> final out = st \<and> \<not> threw out"
  have "?P (on_message stringify st sid name data)"
  proof (rule on_message_each [OF Some])
    show "?P (returned (on_start_share stringify st sid data))"
      using start_share_error [OF prod.collapse [symmetric] _ assms(2),
          of stringify st sid data]
      by (cases "on_start_share stringify st sid data") auto
    show "?P (on_stop_share st sid)"
      using stop_share_error [OF _ assms(2), of st sid] by auto
    show "?P (returned (on_get_available st sid))"
      by (simp add: on_get_available_def Let_def)
    show "?P (on_join_view stringify st sid data)"
      using join_view_error [OF _ assms(2), of stringify st sid data] by auto
    show "?P (returned (on_relay rk stringify st sid data))" for rk
      using relay_same [OF prod.collapse [symmetric], of rk stringify st sid data]
      by (cases "on_relay rk stringify st sid data") auto
    show "?P (Done st [])" by simp
  qed
  with assms(1) show ?thesis by blast
qed

theorem error_leaves_state_witness:
  "sent (on_message tiny party ''D'' ''join-view'' (with_room ''nope''))
     = [\<lparr>rcpts = {''D''}, ev = ''error'', arg = JStr ''Room not found''\<rparr>]
   \<and> final (on_message tiny party ''D'' ''join-view'' (with_room ''nope'')) = party
   \<and> \<not> threw (on_message tiny party ''D'' ''join-view'' (with_room ''nope''))"
proof -
  let ?d = "\<lparr>rcpts = {''D''}, ev = ''error'', arg = JStr ''Room not found''\<rparr>"
  have o: "sent (on_message tiny party ''D'' ''join-view'' (with_room ''nope'')) = [?d]"
    by (simp add: evals)
  then have m: "?d \<in> set (sent (on_message tiny party ''D'' ''join-view'' (with_room ''nope'')))"
    by simp
  have e: "ev ?d = ''error''" by simp
  show ?thesis
    using error_leaves_state [OF m e] o by simp
qed

subsection \<open>A viewer disconnects\<close>

text \<open>
  C7. When a connected socket \<open>C\<close> with \<^verbatim>\<open>isHost = false\<close> and \<^verbatim>\<open>roomId = R\<close> closes
  and the table has room \<open>R\<close>, the first occurrence of \<open>C\<close> is removed from the
  viewers of \<open>R\<close> (nothing changes there if \<open>C\<close> is not among them; no occurrence
  is left if the viewers had no duplicates), the room stays in the table with the same
  host, and \<^verbatim>\<open>viewer-left { viewerId: C }\<close> goes to the host if \<open>C\<close> was among the
  viewers and the host is still connected; no other event is sent.
\<close>

theorem viewer_disconnect:
  assumes viewer: "get_socket st C = Some k" "sock_roomId k = Some R" "R \<noteq> []"
      "isHost k = Some False"
    and room: "room_at st R = Some rm"
  shows "\<exists>st'. socket_close (Suc fuel) st C =
           Some (Done st' (if C \<in> set (viewers rm) \<and> host rm \<noteq> C
                               \<and> get_socket st (host rm) \<noteq> None
                           then [\<lparr>rcpts = {host rm}, ev = ''viewer-left'',
                                   arg = JObj [(''viewerId'', JStr C)]\<rparr>]
                           else []))
         \<and> room_at st' R = Some (rm\<lparr>viewers := remove1 C (viewers rm)\<rparr>)
         \<and> (distinct (viewers rm) \<longrightarrow>
               (\<forall>rm'. room_at st' R = Some rm' \<longrightarrow> C \<notin> set (viewers rm')))
         \<and> get_socket st' C = None"
proof -
  from viewer obtain k0: "sock_of st C = Some k" "connected k"
    by (auto simp: get_socket_def split: option.splits if_splits)
  let ?d = "detach st C"
  have k1: "sock_of ?d C = Some (k\<lparr>connected := False, joined := {}\<rparr>)"
    by (simp add: detach_def sock_of_upd_sock k0)
  from room obtain r where l: "lookup st R = RoomObj r rm" by (auto simp: room_at_RoomObj)
  then have l': "lookup ?d R = RoomObj r rm" by simp
  have gs: "get_socket ?d x = (if x = C then None else get_socket st x)" for x
    by (simp add: detach_def get_socket_upd_sock k0)
  have close: "socket_close (Suc fuel) st C = Some (returned (viewer_left ?d C r rm))"
    using viewer k1 l' by simp
  show ?thesis
  proof (cases "C \<in> set (viewers rm)")
    case False
    then have "viewer_left ?d C r rm = (?d, [])" by (simp add: viewer_left_def)
    with close False l' gs show ?thesis
      by (auto simp: room_at_def remove1_idem)
  next
    case True
    let ?s1 = "?d\<lparr>objs := AList.update r (rm\<lparr>viewers := remove1 C (viewers rm)\<rparr>) (objs ?d)\<rparr>"
    from True have v: "viewer_left ?d C r rm =
        (?s1, socket_emit ?s1 (host rm) ''viewer-left'' (JObj [(''viewerId'', JStr C)]))"
      by (simp add: viewer_left_def Let_def)
    from l' have l1: "lookup ?s1 R = RoomObj r (rm\<lparr>viewers := remove1 C (viewers rm)\<rparr>)"
      by (rule lookup_objs_update)
    have g1: "get_socket ?s1 x = (if x = C then None else get_socket st x)" for x
      using gs by simp
    from close v True l1 g1 show ?thesis
      by (auto simp: room_at_def socket_emit_def split: option.splits)
  qed
qed

theorem viewer_disconnect_witness:
  "socket_close 1 party ''C'' =
     Some (Done (final (the (socket_close 1 party ''C'')))
           [\<lparr>rcpts = {''A''}, ev = ''viewer-left'', arg = JObj [(''viewerId'', JStr ''C'')]\<rparr>])
   \<and> room_at (final (the (socket_close 1 party ''C''))) ''R''
       = Some \<lparr>host = ''A'', viewers = [''E'']\<rparr>
   \<and> get_socket (final (the (socket_close 1 party ''C''))) ''C'' = None"
proof -
  let ?k = "\<lparr>sock_roomId = Some ''R'', isHost = Some False, connected = True,
              joined = {''R'', ''C''}\<rparr>"
  let ?rm = "\<lparr>host = ''A'', viewers = [''C'', ''E'']\<rparr>"
  have s: "get_socket party ''C'' = Some ?k" by (simp add: get_socket_def sock_of_def party_def)
  have f: "sock_roomId ?k = Some ''R''" "''R'' \<noteq> []" "isHost ?k = Some False" by simp_all
  have b: "room_at party ''R'' = Some ?rm"
    by (simp add: room_at_def lookup_def deref_def party_def)
  have h: "get_socket party ''A'' \<noteq> None" by (simp add: get_socket_def sock_of_def party_def)
  from viewer_disconnect [OF s f b, of 0] h
  obtain st' where c: "socket_close (Suc 0) party ''C'' =
      Some (Done st' [\<lparr>rcpts = {''A''}, ev = ''viewer-left'',
                        arg = JObj [(''viewerId'', JStr ''C'')]\<rparr>])"
    and r: "room_at st' ''R'' = Some (?rm\<lparr>viewers := remove1 ''C'' (viewers ?rm)\<rparr>)"
    and g: "get_socket st' ''C'' = None"
    by auto
  from c r g show ?thesis by simp
qed

subsection \<open>Stopping a share\<close>

text \<open>
  C8 asks that \<^verbatim>\<open>stop-share\<close> tears the room down when the sender is its host and is
  a silent no-op otherwise. The server never looks at the host of the room: it tests the
  sender's \<^verbatim>\<open>isHost\<close> flag and that \<^verbatim>\<open>rooms[roomId]\<close> is truthy. After \<open>takeover\<close>
  the host of room \<open>R\<close> is \<open>D\<close>; \<open>A\<close>, which is not the host of any room but
  still has \<^verbatim>\<open>isHost = true\<close> and \<^verbatim>\<open>roomId = R\<close>, sends \<^verbatim>\<open>stop-share\<close>:
  \<^verbatim>\<open>host-stopped\<close> goes to \<open>D\<close> and the room of \<open>D\<close> is deleted.
\<close>

theorem stop_share_after_takeover:
  "(case run 0 tiny init takeover of
      Some (Done st outs) \<Rightarrow>
        map_option host (room_at st ''R'') = Some ''D''
        \<and> (case on_message tiny st ''A'' ''stop-share'' None of
              Done st' outs' \<Rightarrow>
                room_at st' ''R'' = None
                \<and> list_ex (\<lambda>d. ev d = ''host-stopped'' \<and> ''D'' \<in> rcpts d) outs'
            | _ \<Rightarrow> False)
    | _ \<Rightarrow> False)"
  by (simp add: evals handle_def on_connect_def init_def takeover_def)

text \<open>
  C8, amended. \<^verbatim>\<open>stop-share\<close> of a socket \<open>sid\<close> whose \<^verbatim>\<open>roomId\<close> is not a name
  that the table inherits: if the socket has \<^verbatim>\<open>isHost = true\<close> and the table has a room
  under that \<^verbatim>\<open>roomId\<close>, whether or not \<open>sid\<close> is the host of that room, then
  \<^verbatim>\<open>host-stopped\<close> goes to the broadcast room, every viewer of the room has left the
  broadcast room afterwards, and the table has nothing under that id any more; in every
  other case nothing is sent and the state is unchanged.
\<close>

theorem stop_share_by_flag:
  assumes sender: "sock_of st sid = Some k"
  shows "(sock_roomId k = Some R \<and> R \<noteq> [] \<and> own_name st R \<and> room_at st R = Some rm
            \<and> isHost k = Some True \<longrightarrow>
           (\<exists>st'. on_stop_share st sid =
                    Done st' [\<lparr>rcpts = in_room st R, ev = ''host-stopped'', arg = JUndefined\<rparr>]
                \<and> lookup st' R = Absent
                \<and> (\<forall>v \<in> set (viewers rm). \<forall>kv. sock_of st' v = Some kv \<longrightarrow> R \<notin> joined kv)))
       \<and> ((\<forall>R. sock_roomId k = Some R \<longrightarrow> own_name st R)
            \<and> \<not> (\<exists>R rm. sock_roomId k = Some R \<and> R \<noteq> [] \<and> room_at st R = Some rm
                     \<and> isHost k = Some True) \<longrightarrow>
           on_stop_share st sid = Done st [])"
proof (intro conjI impI)
  assume a: "sock_roomId k = Some R \<and> R \<noteq> [] \<and> own_name st R \<and> room_at st R = Some rm
            \<and> isHost k = Some True"
  then obtain r where l: "lookup st R = RoomObj r rm" by (auto simp: room_at_RoomObj)
  let ?st' = "table_delete (leave_all (viewers rm) R st) R"
  from a have "own_name (leave_all (viewers rm) R st) R" by (simp add: own_name_def)
  then have d: "lookup ?st' R = Absent" by (rule lookup_deleted)
  have "on_stop_share st sid =
      Done ?st' [\<lparr>rcpts = in_room st R, ev = ''host-stopped'', arg = JUndefined\<rparr>]"
    using sender a l by (simp add: on_stop_share_def Let_def io_to_emit_def)
  moreover have "\<forall>v \<in> set (viewers rm). \<forall>kv. sock_of ?st' v = Some kv \<longrightarrow> R \<notin> joined kv"
    by (auto simp: sock_of_leave_all)
  ultimately show "\<exists>st'. on_stop_share st sid =
                    Done st' [\<lparr>rcpts = in_room st R, ev = ''host-stopped'', arg = JUndefined\<rparr>]
                \<and> lookup st' R = Absent
                \<and> (\<forall>v \<in> set (viewers rm). \<forall>kv. sock_of st' v = Some kv \<longrightarrow> R \<notin> joined kv)"
    using d by blast
next
  assume b: "(\<forall>R. sock_roomId k = Some R \<longrightarrow> own_name st R)
            \<and> \<not> (\<exists>R rm. sock_roomId k = Some R \<and> R \<noteq> [] \<and> room_at st R = Some rm
                     \<and> isHost k = Some True)"
  show "on_stop_share st sid = Done st []"
  proof (cases "sock_roomId k")
    case None
    with sender show ?thesis by (simp add: on_stop_share_def)
  next
    case (Some R)
    with b have o: "lookup st R \<noteq> Inherited" by (simp add: own_name_not_inherited)
    show ?thesis
    proof (cases "lookup st R")
      case Absent
      with sender Some show ?thesis by (simp add: on_stop_share_def)
    next
      case Inherited
      with o show ?thesis by simp
    next
      case (RoomObj r rm)
      then have "room_at st R = Some rm" by (simp add: room_at_def)
      with b Some have "R = [] \<or> isHost k \<noteq> Some True" by blast
      with sender Some show ?thesis by (auto simp: on_stop_share_def)
    qed
  qed
qed

theorem stop_share_by_flag_witness:
  "sent (on_stop_share party ''A'') =
     [\<lparr>rcpts = {''A'', ''C'', ''E''}, ev = ''host-stopped'', arg = JUndefined\<rparr>]
   \<and> lookup (final (on_stop_share party ''A'')) ''R'' = Absent
   \<and> on_stop_share party ''D'' = Done party []"
proof -
  let ?a = "\<lparr>sock_roomId = Some ''R'', isHost = Some True, connected = True,
              joined = {''R'', ''A''}\<rparr>"
  let ?k = "\<lparr>sock_roomId = None, isHost = None, connected = True, joined = {''D''}\<rparr>"
  let ?rm = "\<lparr>host = ''A'', viewers = [''C'', ''E'']\<rparr>"
  have sa: "sock_of party ''A'' = Some ?a" by (simp add: sock_of_def party_def)
  have sd: "sock_of party ''D'' = Some ?k" by (simp add: sock_of_def party_def)
  have b: "room_at party ''R'' = Some ?rm"
    by (simp add: room_at_def lookup_def deref_def party_def)
  have o: "own_name party ''R''" by (simp add: own_name_def inherited_names_def party_def)
  have i: "in_room party ''R'' = {''A'', ''C'', ''E''}" by (simp add: in_room_def party_def)
  from stop_share_by_flag [OF sa, of "''R''" ?rm] b o
  obtain st' where e1: "on_stop_share party ''A'' =
      Done st' [\<lparr>rcpts = in_room party ''R'', ev = ''host-stopped'', arg = JUndefined\<rparr>]"
    and e2: "lookup st' ''R'' = Absent"
    by auto
  from stop_share_by_flag [OF sd, of "''R''" ?rm]
  have e3: "on_stop_share party ''D'' = Done party []" by simp
  show ?thesis
    unfolding e1 e3 using e2 i by simp
qed

subsection \<open>The host disconnects\<close>

text \<open>
  C6 asks that, when the host of a room disconnects, every viewer of the room receives
  \<^verbatim>\<open>host-disconnected\<close> and is closed, and the room is removed. On \<open>host_leaves\<close>
  (host \<open>A\<close>, viewers \<open>C\<close> then \<open>E\<close>) the server notifies and closes \<open>C\<close> only:
  closing \<open>C\<close> runs its disconnect handler at once, which splices \<open>C\<close> out of the
  array that \<^verbatim>\<open>forEach\<close> is walking, so index 1 is gone when the loop gets there.
  \<open>E\<close> receives nothing and stays connected; the room is removed. This holds for
  every amount of fuel from 2 on.
\<close>

theorem host_disconnect_skips_viewer:
  "(case run (2 + m) tiny init host_leaves of
      Some (Done st outs) \<Rightarrow>
        list_ex (\<lambda>d. ev d = ''host-disconnected'' \<and> ''C'' \<in> rcpts d) outs
        \<and> \<not> list_ex (\<lambda>d. ev d = ''host-disconnected'' \<and> ''E'' \<in> rcpts d) outs
        \<and> get_socket st ''C'' = None
        \<and> map_option connected (get_socket st ''E'') = Some True
        \<and> room_at st ''R'' = None
    | _ \<Rightarrow> False)"
proof -
  have "(case run (Suc (Suc 0)) tiny init host_leaves of
      Some (Done st outs) \<Rightarrow>
        list_ex (\<lambda>d. ev d = ''host-disconnected'' \<and> ''C'' \<in> rcpts d) outs
        \<and> \<not> list_ex (\<lambda>d. ev d = ''host-disconnected'' \<and> ''E'' \<in> rcpts d) outs
        \<and> get_socket st ''C'' = None
        \<and> map_option connected (get_socket st ''E'') = Some True
        \<and> room_at st ''R'' = None
    | _ \<Rightarrow> False)"
    by (simp add: evals handle_def on_connect_def init_def host_leaves_def)
  then obtain st outs where r: "run 2 tiny init host_leaves = Some (Done st outs)"
    and p: "list_ex (\<lambda>d. ev d = ''host-disconnected'' \<and> ''C'' \<in> rcpts d) outs"
      "\<not> list_ex (\<lambda>d. ev d = ''host-disconnected'' \<and> ''E'' \<in> rcpts d) outs"
      "get_socket st ''C'' = None"
      "map_option connected (get_socket st ''E'') = Some True"
      "room_at st ''R'' = None"
    by (auto simp: numeral_2_eq_2 split: option.splits outcome.splits)
  from r have "run (2 + m) tiny init host_leaves = Some (Done st outs)" by (rule run_more_fuel)
  with p show ?thesis by simp
qed

subsection \<open>Rooms and live hosts\<close>

text \<open>
  C9 asks that a room is in the table only while its host is connected, so that
  \<^verbatim>\<open>get-available\<close> counts the rooms with a live host. On \<open>two_rooms\<close> connection
  \<open>A\<close> creates rooms \<open>r1\<close> and \<open>r2\<close> and disconnects: the handler removes
  \<open>rooms[socket.roomId]\<close>, which is \<open>r2\<close>, and \<open>r1\<close> stays in the table with the
  closed socket \<open>A\<close> as host; \<open>B\<close> is then told a count of 1.
\<close>

theorem stale_room_counted:
  "(case run (1 + m) tiny init two_rooms of
      Some (Done st outs) \<Rightarrow>
        map_option host (room_at st ''r1'') = Some ''A''
        \<and> get_socket st ''A'' = None
        \<and> list_ex (\<lambda>d. ''B'' \<in> rcpts d \<and> ev d = ''available-count''
                        \<and> arg d = JObj [(''count'', JNum 1)]) outs
    | _ \<Rightarrow> False)"
proof -
  have "(case run (Suc 0) tiny init two_rooms of
      Some (Done st outs) \<Rightarrow>
        map_option host (room_at st ''r1'') = Some ''A''
        \<and> get_socket st ''A'' = None
        \<and> list_ex (\<lambda>d. ''B'' \<in> rcpts d \<and> ev d = ''available-count''
                        \<and> arg d = JObj [(''count'', JNum 1)]) outs
    | _ \<Rightarrow> False)"
    by (simp add: evals handle_def on_connect_def init_def two_rooms_def on_get_available_def)
  then obtain st outs where r: "run 1 tiny init two_rooms = Some (Done st outs)"
    and p: "map_option host (room_at st ''r1'') = Some ''A''" "get_socket st ''A'' = None"
      "list_ex (\<lambda>d. ''B'' \<in> rcpts d \<and> ev d = ''available-count''
                        \<and> arg d = JObj [(''count'', JNum 1)]) outs"
    by (auto split: option.splits outcome.splits)
  from r have "run (1 + m) tiny init two_rooms = Some (Done st outs)" by (rule run_more_fuel)
  with p show ?thesis by simp
qed

subsection \<open>Duplicate viewers\<close>

text \<open>
  C10 asks that no room lists a connection twice in any reachable state. A connection
  that sends \<^verbatim>\<open>join-view\<close> twice for the same room is pushed twice.
\<close>

theorem join_twice_duplicates:
  "(case run 0 tiny init joins_twice of
      Some (Done st outs) \<Rightarrow> map_option viewers (room_at st ''R'') = Some [''C'', ''C'']
    | _ \<Rightarrow> False)"
  by (simp add: evals handle_def on_connect_def init_def joins_twice_def)

text \<open>
  C10, amended. In every state reachable by events in which no connection sends
  \<^verbatim>\<open>join-view\<close> for a room whose viewers already contain it, no room lists a
  connection twice.
\<close>

theorem fresh_joins_keep_viewers_distinct:
  assumes "reach stringify joins_fresh st" and "room_at st rid = Some rm"
  shows "distinct (viewers rm)"
proof -
  from assms(1) have "distinct_viewers st" by (rule reach_dv)
  moreover from assms(2) obtain r where "lookup st rid = RoomObj r rm"
    by (auto simp: room_at_RoomObj)
  then have "map_of (objs st) r = Some rm" by (rule lookup_RoomObj_objs)
  ultimately show ?thesis by (rule dv_lookup)
qed

theorem fresh_joins_keep_viewers_distinct_witness:
  "reach tiny joins_fresh after_two_join
   \<and> room_at after_two_join ''R'' = Some \<lparr>host = ''A'', viewers = [''C'', ''E'']\<rparr>
   \<and> distinct (viewers \<lparr>host = ''A'', viewers = [''C'', ''E'']\<rparr>)"
proof -
  have "run_guarded joins_fresh 0 tiny init two_join = Some after_two_join"
    by (simp add: evals handle_def on_connect_def init_def two_join_def joins_fresh_def
        after_two_join_def)
  with reach.start have r: "reach tiny joins_fresh after_two_join" by (rule reach_run_guarded)
  have a: "room_at after_two_join ''R'' = Some \<lparr>host = ''A'', viewers = [''C'', ''E'']\<rparr>"
    by (simp add: room_at_def lookup_def deref_def after_two_join_def)
  show ?thesis
    using fresh_joins_keep_viewers_distinct [OF r a] r a by simp
qed

end
